theory Spec2Isabelle
  imports Main
begin

section \<open>version-sentinel: the VersionChecker of src/index.ts\<close>

text \<open>
  A shallow embedding of the class \<^verbatim>\<open>VersionChecker\<close>. The instance fields and the
  parts of the host the class talks to (the fetch collaborator, the clock behind
  \<^verbatim>\<open>Date.now()\<close>, the registered callbacks, the console and the timer table) are made
  explicit:
  \<^item> the host is a record of oracles, \<open>host\<close>: the outcome of the \<open>n\<close>-th call of
    \<^verbatim>\<open>fetch\<close>, the value of the \<open>n\<close>-th call of \<^verbatim>\<open>Date.now()\<close>, and what a callback
    does when it is called with an event (return, or throw a value);
  \<^item> the state is a record, \<open>state\<close>: the fields of the instance, the counters of the
    oracles, and the traces of what the instance did to the host (events emitted,
    callbacks invoked, console output, delays awaited, interval timers armed).
  An \<^verbatim>\<open>async\<close> method is run to completion at the point of its call: the model is
  sequential, so overlapping invocations of \<^verbatim>\<open>check()\<close> are outside it, and a callback
  acts on the checker only by returning or throwing.
\<close>

subsection \<open>Data model\<close>

text \<open>
  Modelled from the spec: the type declarations of \<^verbatim>\<open>./types\<close>, a file that is not among
  the sources. The data model of the specification gives the fields of the
  configuration, of the check result and of the event payloads, and the six event
  kinds; \<^verbatim>\<open>index.ts\<close> uses exactly these: \<^verbatim>\<open>DEFAULT_OPTIONS\<close> lists the fields of the options,
  \<^verbatim>\<open>compareVersion\<close> those of \<^verbatim>\<open>VersionInfo\<close>, \<^verbatim>\<open>emit\<close> those of \<^verbatim>\<open>VersionCheckerEvent\<close>, and
  the documentation of \<^verbatim>\<open>on\<close> the event types. The numbers of the options are integers
  here (a negative \<^verbatim>\<open>retryTimes\<close> is allowed and means no retry); a status is a natural
  number.
\<close>

record VersionCheckerOptions =
  checkInterval :: int
  versionUrl :: string
  compareStrategy :: string
  autoStart :: bool
  retryTimes :: int
  retryInterval :: int

definition DEFAULT_OPTIONS :: VersionCheckerOptions where
  "DEFAULT_OPTIONS =
     \<lparr>checkInterval = 60000, versionUrl = ''/'', compareStrategy = ''etag'',
      autoStart = True, retryTimes = 3, retryInterval = 3000\<rparr>"

record VersionInfo =
  currentVersion :: "string option"
  newVersion :: "string option"
  updateAvailable :: bool
  timestamp :: int

datatype VersionCheckerEventType = EvUpdate | EvCheck | EvError | EvRetry | EvStart | EvStop

text \<open>A value that is thrown: \<^verbatim>\<open>new Error(message)\<close>, or a \<^verbatim>\<open>TypeError\<close> of the host.\<close>

datatype js_error = JsError string | JsTypeError string

text \<open>
  The payload of an event: absent, the \<^verbatim>\<open>VersionInfo\<close> of an update, the error of a
  failed attempt, or \<^verbatim>\<open>{error, retryCount}\<close>.
\<close>

datatype payload =
    Undefined
  | PInfo VersionInfo
  | PError js_error
  | PRetry js_error nat

record VersionCheckerEvent =
  ev_type :: VersionCheckerEventType
  ev_payload :: payload
  ev_timestamp :: int

text \<open>
  A response of the fetch collaborator. \<^verbatim>\<open>headers.get(name)\<close> is the lookup in a map
  from the lower-case header name to its value; \<open>None\<close> is JavaScript's \<^verbatim>\<open>null\<close>.
\<close>

record response =
  ok :: bool
  status :: nat
  statusText :: string
  headers :: "string \<rightharpoonup> string"

datatype fetch_result = Rejects js_error | Resolves response

text \<open>A callback is known by its identity, a number; its behaviour is the host's.\<close>

type_synonym callback_id = nat

record host =
  fetch :: "nat \<Rightarrow> string \<Rightarrow> fetch_result"
  now :: "nat \<Rightarrow> int"
  callback :: "callback_id \<Rightarrow> VersionCheckerEvent \<Rightarrow> js_error option"

text \<open>
  The first five fields are the private fields of the class; a \<^verbatim>\<open>Set\<close> of callbacks
  is a duplicate-free list in insertion order, the order in which \<^verbatim>\<open>forEach\<close> visits
  it. The other fields are the host's side: how often \<^verbatim>\<open>fetch\<close> and \<^verbatim>\<open>Date.now()\<close> were
  called, every event passed to \<^verbatim>\<open>emit\<close>, every callback invocation, every error
  written by \<^verbatim>\<open>console.error\<close>, every delay awaited through \<^verbatim>\<open>setTimeout\<close>, the
  interval timers that are armed and the next timer handle.
\<close>

record state =
  options :: VersionCheckerOptions
  versionTag :: "string option"
  timer :: "nat option"
  retryCount :: nat
  eventListeners :: "VersionCheckerEventType \<rightharpoonup> callback_id list"
  fetches :: nat
  ticks :: nat
  emitted :: "VersionCheckerEvent list"
  invoked :: "(callback_id \<times> VersionCheckerEvent) list"
  console :: "js_error list"
  timeouts :: "int list"
  intervals :: "nat list"
  next_timer :: nat

subsection \<open>Event dispatch\<close>

text \<open>
  The body of the \<^verbatim>\<open>forEach\<close> of \<^verbatim>\<open>emit\<close>: the callback is called inside
  \<^verbatim>\<open>try\<close>; what it throws is caught and written to the console.
\<close>

definition call_listener :: "host \<Rightarrow> VersionCheckerEvent \<Rightarrow> callback_id \<Rightarrow> state \<Rightarrow> state" where
  "call_listener env eventData cb s =
     (let s1 = s\<lparr>invoked := invoked s @ [(cb, eventData)]\<rparr>
      in case callback env cb eventData of
           None \<Rightarrow> s1
         | Some error \<Rightarrow> s1\<lparr>console := console s1 @ [error]\<rparr>)"

definition emit :: "host \<Rightarrow> VersionCheckerEventType \<Rightarrow> payload \<Rightarrow> state \<Rightarrow> state" where
  "emit env event p s =
     (let eventData = \<lparr>ev_type = event, ev_payload = p, ev_timestamp = now env (ticks s)\<rparr>;
          s1 = s\<lparr>ticks := Suc (ticks s), emitted := emitted s @ [eventData]\<rparr>
      in case eventListeners s1 event of
           None \<Rightarrow> s1
         | Some cbs \<Rightarrow> fold (call_listener env eventData) cbs s1)"

definition on :: "VersionCheckerEventType \<Rightarrow> callback_id \<Rightarrow> state \<Rightarrow> state" where
  "on event cb s =
     (let s1 = (if eventListeners s event = None
                then s\<lparr>eventListeners := (eventListeners s)(event \<mapsto> [])\<rparr> else s)
      in case eventListeners s1 event of
           None \<Rightarrow> s1
         | Some cbs \<Rightarrow>
             s1\<lparr>eventListeners :=
                  (eventListeners s1)(event \<mapsto> (if cb \<in> set cbs then cbs else cbs @ [cb]))\<rparr>)"

definition off :: "VersionCheckerEventType \<Rightarrow> callback_id \<Rightarrow> state \<Rightarrow> state" where
  "off event cb s =
     (case eventListeners s event of
        None \<Rightarrow> s
      | Some cbs \<Rightarrow> s\<lparr>eventListeners := (eventListeners s)(event \<mapsto> removeAll cb cbs)\<rparr>)"

subsection \<open>Extracting and comparing the version marker\<close>

text \<open>
  JavaScript's \<^verbatim>\<open>a || b\<close> on values of type \<^verbatim>\<open>string | null\<close>: \<^verbatim>\<open>a\<close> when it is
  truthy, that is neither \<^verbatim>\<open>null\<close> nor the empty string, and \<^verbatim>\<open>b\<close> otherwise.
\<close>

fun js_or :: "string option \<Rightarrow> string option \<Rightarrow> string option" where
  "js_or None b = b"
| "js_or (Some v) b = (if v = [] then b else Some v)"

text \<open>The \<^verbatim>\<open>switch\<close> of \<^verbatim>\<open>check\<close> on \<^verbatim>\<open>options.compareStrategy\<close>.\<close>

definition extract_marker :: "string \<Rightarrow> (string \<rightharpoonup> string) \<Rightarrow> string option" where
  "extract_marker strategy hs =
     (if strategy = ''etag'' then hs ''etag''
      else if strategy = ''last-modified'' then hs ''last-modified''
      else if strategy = ''custom'' then js_or (hs ''x-version'') (hs ''etag'')
      else js_or (hs ''etag'') (hs ''last-modified''))"

definition compareVersion :: "host \<Rightarrow> string option \<Rightarrow> state \<Rightarrow> VersionInfo \<times> state" where
  "compareVersion env newVersionTag s =
     (let versionInfo = \<lparr>currentVersion = versionTag s, newVersion = newVersionTag,
                          updateAvailable = False, timestamp = now env (ticks s)\<rparr>;
          s1 = s\<lparr>ticks := Suc (ticks s)\<rparr>
      in if versionTag s1 = None then (versionInfo, s1\<lparr>versionTag := newVersionTag\<rparr>)
         else if newVersionTag \<noteq> None \<and> newVersionTag \<noteq> versionTag s1
         then (versionInfo\<lparr>updateAvailable := True\<rparr>, s1\<lparr>versionTag := newVersionTag\<rparr>)
         else (versionInfo, s1))"

subsection \<open>The check\<close>

text \<open>A number in a template literal: its decimal digits.\<close>

fun decimal :: "nat \<Rightarrow> string" where
  "decimal n =
     (if n < 10 then [''0123456789'' ! n]
      else decimal (n div 10) @ [''0123456789'' ! (n mod 10)])"

declare decimal.simps [simp del]

text \<open>
  The \<^verbatim>\<open>try\<close> block of \<^verbatim>\<open>check\<close>: \<open>Inl\<close> is the value it throws (the rejection of the
  fetch, or the error made for a response that is not \<^verbatim>\<open>ok\<close>), \<open>Inr\<close> the
  \<^verbatim>\<open>VersionInfo\<close> it returns.
\<close>

definition check_try :: "host \<Rightarrow> state \<Rightarrow> (js_error + VersionInfo) \<times> state" where
  "check_try env s =
     (let s1 = emit env EvCheck Undefined s;
          fetched = fetch env (fetches s1) (versionUrl (options s1));
          s2 = s1\<lparr>fetches := Suc (fetches s1)\<rparr>
      in case fetched of
           Rejects error \<Rightarrow> (Inl error, s2)
         | Resolves r \<Rightarrow>
             if \<not> ok r
             then (Inl (JsError (''HTTP error: '' @ decimal (status r) @ '' '' @ statusText r)), s2)
             else
               let newVersionTag = extract_marker (compareStrategy (options s2)) (headers r);
                   (versionInfo, s3) = compareVersion env newVersionTag s2;
                   s4 = (if updateAvailable versionInfo
                         then emit env EvUpdate (PInfo versionInfo) s3 else s3)
               in (Inr versionInfo, s4))"

text \<open>What a callback invocation and \<^verbatim>\<open>emit\<close> leave alone, and what they append.\<close>

lemma call_listener_fields [simp]:
  "retryCount (call_listener env e cb s) = retryCount s"
  "options (call_listener env e cb s) = options s"
  "versionTag (call_listener env e cb s) = versionTag s"
  "timer (call_listener env e cb s) = timer s"
  "eventListeners (call_listener env e cb s) = eventListeners s"
  "fetches (call_listener env e cb s) = fetches s"
  "ticks (call_listener env e cb s) = ticks s"
  "emitted (call_listener env e cb s) = emitted s"
  "timeouts (call_listener env e cb s) = timeouts s"
  "intervals (call_listener env e cb s) = intervals s"
  "next_timer (call_listener env e cb s) = next_timer s"
  by (simp_all add: call_listener_def Let_def split: option.splits)

lemma fold_call_listener_fields [simp]:
  "retryCount (fold (call_listener env e) cbs s) = retryCount s"
  "options (fold (call_listener env e) cbs s) = options s"
  "versionTag (fold (call_listener env e) cbs s) = versionTag s"
  "timer (fold (call_listener env e) cbs s) = timer s"
  "eventListeners (fold (call_listener env e) cbs s) = eventListeners s"
  "fetches (fold (call_listener env e) cbs s) = fetches s"
  "ticks (fold (call_listener env e) cbs s) = ticks s"
  "emitted (fold (call_listener env e) cbs s) = emitted s"
  "timeouts (fold (call_listener env e) cbs s) = timeouts s"
  "intervals (fold (call_listener env e) cbs s) = intervals s"
  "next_timer (fold (call_listener env e) cbs s) = next_timer s"
  by (induction cbs arbitrary: s) simp_all

lemma emit_fields [simp]:
  "retryCount (emit env ev p s) = retryCount s"
  "options (emit env ev p s) = options s"
  "versionTag (emit env ev p s) = versionTag s"
  "timer (emit env ev p s) = timer s"
  "eventListeners (emit env ev p s) = eventListeners s"
  "fetches (emit env ev p s) = fetches s"
  "ticks (emit env ev p s) = Suc (ticks s)"
  "emitted (emit env ev p s) =
     emitted s @ [\<lparr>ev_type = ev, ev_payload = p, ev_timestamp = now env (ticks s)\<rparr>]"
  "timeouts (emit env ev p s) = timeouts s"
  "intervals (emit env ev p s) = intervals s"
  "next_timer (emit env ev p s) = next_timer s"
  by (simp_all add: emit_def Let_def split: option.splits)

lemma compareVersion_fields [simp]:
  "retryCount (snd (compareVersion env v s)) = retryCount s"
  "options (snd (compareVersion env v s)) = options s"
  "timer (snd (compareVersion env v s)) = timer s"
  "eventListeners (snd (compareVersion env v s)) = eventListeners s"
  "fetches (snd (compareVersion env v s)) = fetches s"
  "ticks (snd (compareVersion env v s)) = Suc (ticks s)"
  "emitted (snd (compareVersion env v s)) = emitted s"
  "invoked (snd (compareVersion env v s)) = invoked s"
  "console (snd (compareVersion env v s)) = console s"
  "timeouts (snd (compareVersion env v s)) = timeouts s"
  "intervals (snd (compareVersion env v s)) = intervals s"
  "next_timer (snd (compareVersion env v s)) = next_timer s"
  by (simp_all add: compareVersion_def Let_def)

lemma check_try_fields [simp]:
  "retryCount (snd (check_try env s)) = retryCount s"
  "options (snd (check_try env s)) = options s"
  "timer (snd (check_try env s)) = timer s"
  "eventListeners (snd (check_try env s)) = eventListeners s"
  "fetches (snd (check_try env s)) = Suc (fetches s)"
  "timeouts (snd (check_try env s)) = timeouts s"
  "intervals (snd (check_try env s)) = intervals s"
  "next_timer (snd (check_try env s)) = next_timer s"
  by (simp_all add: check_try_def Let_def case_prod_unfold split: fetch_result.splits)

text \<open>
  \<^verbatim>\<open>check\<close>: the \<^verbatim>\<open>try\<close> block, and the \<^verbatim>\<open>catch\<close> block around it, which emits
  \<^verbatim>\<open>error\<close> and then either counts a retry, emits \<^verbatim>\<open>retry\<close>, awaits
  \<^verbatim>\<open>retryInterval\<close> and returns what the recursive call returns, or resets the counter
  and throws the error again. \<open>Inl\<close> is the rejection of the promise, \<open>Inr\<close> its value.
  The recursion ends because every retry moves the counter towards \<^verbatim>\<open>retryTimes\<close>.
\<close>

function check :: "host \<Rightarrow> state \<Rightarrow> (js_error + VersionInfo) \<times> state" where
  "check env s =
     (case check_try env s of
        (Inr versionInfo, s') \<Rightarrow> (Inr versionInfo, s')
      | (Inl error, s') \<Rightarrow>
          let s1 = emit env EvError (PError error) s'
          in if int (retryCount s1) < retryTimes (options s1)
             then
               let s2 = s1\<lparr>retryCount := retryCount s1 + 1\<rparr>;
                   s3 = emit env EvRetry (PRetry error (retryCount s2)) s2;
                   s4 = s3\<lparr>timeouts := timeouts s3 @ [retryInterval (options s3)]\<rparr>
               in check env s4
             else (Inl error, s1\<lparr>retryCount := 0\<rparr>))"
  by pat_completeness auto
termination
proof (relation "measure (\<lambda>(env, s). nat (retryTimes (options s) - int (retryCount s)))")
  show "wf (measure (\<lambda>(env, s). nat (retryTimes (options s) - int (retryCount s))))"
    by simp
next
  fix env s x1 s' error s1 s2 s3 s4
  assume t: "(x1, s') = check_try env s" and s1: "s1 = emit env EvError (PError error) s'"
    and lt: "int (retryCount s1) < retryTimes (options s1)"
    and s2: "s2 = s1\<lparr>retryCount := retryCount s1 + 1\<rparr>"
    and s3: "s3 = emit env EvRetry (PRetry error (retryCount s2)) s2"
    and s4: "s4 = s3\<lparr>timeouts := timeouts s3 @ [retryInterval (options s3)]\<rparr>"
  have s': "s' = snd (check_try env s)"
    using t [symmetric] by simp
  have "retryCount s1 = retryCount s" "options s1 = options s"
    by (simp_all add: s1 s')
  moreover have "retryCount s4 = Suc (retryCount s)" "options s4 = options s"
    by (simp_all add: s4 s3 s2 s1 s')
  ultimately show "((env, s4), env, s) \<in>
      measure (\<lambda>(env, s). nat (retryTimes (options s) - int (retryCount s)))"
    using lt by simp
qed

declare check.simps [simp del]

subsection \<open>Construction, the timer and sequences of calls\<close>

text \<open>
  The options a caller passes: every field may be missing. The constructor spreads them
  over \<^verbatim>\<open>DEFAULT_OPTIONS\<close>.
\<close>

record user_options =
  u_checkInterval :: "int option"
  u_versionUrl :: "string option"
  u_compareStrategy :: "string option"
  u_autoStart :: "bool option"
  u_retryTimes :: "int option"
  u_retryInterval :: "int option"

definition merge_options :: "user_options \<Rightarrow> VersionCheckerOptions" where
  "merge_options u =
     \<lparr>checkInterval = (case u_checkInterval u of None \<Rightarrow> checkInterval DEFAULT_OPTIONS | Some v \<Rightarrow> v),
      versionUrl = (case u_versionUrl u of None \<Rightarrow> versionUrl DEFAULT_OPTIONS | Some v \<Rightarrow> v),
      compareStrategy =
        (case u_compareStrategy u of None \<Rightarrow> compareStrategy DEFAULT_OPTIONS | Some v \<Rightarrow> v),
      autoStart = (case u_autoStart u of None \<Rightarrow> autoStart DEFAULT_OPTIONS | Some v \<Rightarrow> v),
      retryTimes = (case u_retryTimes u of None \<Rightarrow> retryTimes DEFAULT_OPTIONS | Some v \<Rightarrow> v),
      retryInterval =
        (case u_retryInterval u of None \<Rightarrow> retryInterval DEFAULT_OPTIONS | Some v \<Rightarrow> v)\<rparr>"

text \<open>The instance as its field initialisers leave it, on a host that has not been used.\<close>

definition fresh :: "VersionCheckerOptions \<Rightarrow> state" where
  "fresh opts =
     \<lparr>options = opts, versionTag = None, timer = None, retryCount = 0,
      eventListeners = Map.empty, fetches = 0, ticks = 0, emitted = [], invoked = [],
      console = [], timeouts = [], intervals = [], next_timer = 0\<rparr>"

text \<open>
  \<^verbatim>\<open>start\<close>: the immediate \<^verbatim>\<open>check()\<close> is not awaited and its promise is dropped; here it
  runs to its end at the call, and only the state it leaves is kept. \<^verbatim>\<open>setInterval\<close> arms
  a timer under a new handle, which is an object and so never falsy. \<^verbatim>\<open>stop\<close> clears the
  timer, forgets the handle and emits \<^verbatim>\<open>stop\<close>, in this order.
\<close>

definition start :: "host \<Rightarrow> state \<Rightarrow> state" where
  "start env s =
     (if timer s \<noteq> None then s
      else
        let s1 = emit env EvStart Undefined s;
            s2 = snd (check env s1);
            h = next_timer s2
        in s2\<lparr>timer := Some h, intervals := intervals s2 @ [h], next_timer := Suc h\<rparr>)"

definition stop :: "host \<Rightarrow> state \<Rightarrow> state" where
  "stop env s =
     (case timer s of
        None \<Rightarrow> s
      | Some h \<Rightarrow>
          emit env EvStop Undefined (s\<lparr>intervals := removeAll h (intervals s), timer := None\<rparr>))"

definition getTimerState :: "state \<Rightarrow> bool" where
  "getTimerState s = (timer s \<noteq> None)"

definition new_VersionChecker :: "host \<Rightarrow> user_options \<Rightarrow> state" where
  "new_VersionChecker env u =
     (let s = fresh (merge_options u)
      in if autoStart (options s) then start env s else s)"

text \<open>
  What a caller and the host can do with an instance: the public methods, and the
  firing of an interval timer, which calls \<^verbatim>\<open>check()\<close> when the timer is still armed.
\<close>

datatype call =
    Start
  | Stop
  | Check
  | On VersionCheckerEventType callback_id
  | Off VersionCheckerEventType callback_id
  | Fire nat

fun step :: "host \<Rightarrow> call \<Rightarrow> state \<Rightarrow> state" where
  "step env Start s = start env s"
| "step env Stop s = stop env s"
| "step env Check s = snd (check env s)"
| "step env (On ev cb) s = on ev cb s"
| "step env (Off ev cb) s = off ev cb s"
| "step env (Fire h) s = (if h \<in> set (intervals s) then snd (check env s) else s)"

fun run :: "host \<Rightarrow> call list \<Rightarrow> state \<Rightarrow> state" where
  "run env [] s = s"
| "run env (c # cs) s = run env cs (step env c s)"

text \<open>\<open>n\<close> calls of \<^verbatim>\<open>check()\<close> one after the other, with what each promise settles to.\<close>

fun checks :: "host \<Rightarrow> nat \<Rightarrow> state \<Rightarrow> (js_error + VersionInfo) list \<times> state" where
  "checks env 0 s = ([], s)"
| "checks env (Suc n) s =
     (let (r, s1) = check env s; (rs, s2) = checks env n s1 in (r # rs, s2))"

subsection \<open>Notions used to state the properties\<close>

text \<open>
  How an attempt fails, if it does: the fetch rejects (or throws) with a value, or it
  resolves with a response that is not \<^verbatim>\<open>ok\<close>, for which \<^verbatim>\<open>check\<close> makes the error
  \<^verbatim>\<open>HTTP error: <status> <statusText>\<close>.
\<close>

definition failure :: "fetch_result \<Rightarrow> js_error option" where
  "failure f =
     (case f of
        Rejects error \<Rightarrow> Some error
      | Resolves r \<Rightarrow>
          if ok r then None
          else Some (JsError (''HTTP error: '' @ decimal (status r) @ '' '' @ statusText r)))"

text \<open>
  An event without its timestamp; the payloads of the events of one type, in the order
  of their emission; and the three events of an attempt that fails and is retried.
\<close>

definition untimed :: "VersionCheckerEvent \<Rightarrow> VersionCheckerEventType \<times> payload" where
  "untimed e = (ev_type e, ev_payload e)"

definition payloads_of :: "VersionCheckerEventType \<Rightarrow> VersionCheckerEvent list \<Rightarrow> payload list" where
  "payloads_of ty evs = map ev_payload (filter (\<lambda>e. ev_type e = ty) evs)"

definition failed_attempt :: "js_error \<Rightarrow> nat \<Rightarrow> (VersionCheckerEventType \<times> payload) list" where
  "failed_attempt e n = [(EvCheck, Undefined), (EvError, PError e), (EvRetry, PRetry e n)]"

text \<open>The callbacks registered for an event, in the order \<^verbatim>\<open>forEach\<close> visits them.\<close>

definition listeners :: "state \<Rightarrow> VersionCheckerEventType \<Rightarrow> callback_id list" where
  "listeners s event = (case eventListeners s event of None \<Rightarrow> [] | Some cbs \<Rightarrow> cbs)"

text \<open>
  Two states that differ at most in the record of callback invocations and in the
  console output.
\<close>

definition same_checker :: "state \<Rightarrow> state \<Rightarrow> bool" where
  "same_checker s t =
     (options s = options t \<and> versionTag s = versionTag t \<and> timer s = timer t \<and>
      retryCount s = retryCount t \<and> eventListeners s = eventListeners t \<and>
      fetches s = fetches t \<and> ticks s = ticks t \<and> emitted s = emitted t \<and>
      timeouts s = timeouts t \<and> intervals s = intervals t \<and> next_timer s = next_timer t)"

text \<open>
  The extraction of the marker as the specification words it: a fallback is taken when
  the preferred header is absent.
\<close>

definition spec_marker :: "string \<Rightarrow> (string \<rightharpoonup> string) \<Rightarrow> string option" where
  "spec_marker strategy hs =
     (if strategy = ''etag'' then hs ''etag''
      else if strategy = ''last-modified'' then hs ''last-modified''
      else if strategy = ''custom''
        then (case hs ''x-version'' of Some v \<Rightarrow> Some v | None \<Rightarrow> hs ''etag'')
      else (case hs ''etag'' of Some v \<Rightarrow> Some v | None \<Rightarrow> hs ''last-modified''))"

text \<open>
  Hosts for the examples: a successful response with given headers, and a host whose
  fetch follows a script, then repeats one outcome; its clock counts its calls and its
  callbacks return normally.
\<close>

definition ok_response :: "(string \<rightharpoonup> string) \<Rightarrow> response" where
  "ok_response hs = \<lparr>ok = True, status = 200, statusText = ''OK'', headers = hs\<rparr>"

definition scripted_host :: "fetch_result list \<Rightarrow> fetch_result \<Rightarrow> host" where
  "scripted_host script rest =
     \<lparr>fetch = (\<lambda>n url. if n < length script then script ! n else rest),
      now = (\<lambda>n. int n),
      callback = (\<lambda>cb e. None)\<rparr>"

text \<open>
  A host whose first fetch rejects, whose second fetch succeeds, and whose later fetches
  all reject.
\<close>

definition flaky_host :: host where
  "flaky_host =
     scripted_host
       [Rejects (JsError ''Network error''), Resolves (ok_response [''etag'' \<mapsto> ''W/123''])]
       (Rejects (JsError ''Network error''))"

text \<open>
  A host whose first two responses carry no header at all and whose later responses
  carry an \<^verbatim>\<open>ETag\<close>.
\<close>

definition unmarked_host :: host where
  "unmarked_host =
     scripted_host [Resolves (ok_response Map.empty), Resolves (ok_response Map.empty)]
       (Resolves (ok_response [''etag'' \<mapsto> ''W/123'']))"

text \<open>
  A host whose fetch always rejects and on which the callback 0 throws whenever it is
  called; and an instance without retries on which the callbacks 0 and 1 listen to
  \<^verbatim>\<open>error\<close>.
\<close>

definition throwing_host :: host where
  "throwing_host =
     (scripted_host [] (Rejects (JsError ''Network error'')))
       \<lparr>callback := (\<lambda>cb e. if cb = 0 then Some (JsError ''Listener error'') else None)\<rparr>"

definition listening :: state where
  "listening =
     on EvError 1 (on EvError 0 (fresh (DEFAULT_OPTIONS\<lparr>autoStart := False, retryTimes := 0\<rparr>)))"

text \<open>
  The interval timers that are armed are exactly the one whose handle the instance
  holds, if it holds one.
\<close>

definition timer_owned :: "state \<Rightarrow> bool" where
  "timer_owned s = (intervals s = (case timer s of None \<Rightarrow> [] | Some h \<Rightarrow> [h]))"

text \<open>
  A caller that passes no option, and a host whose every fetch succeeds with the same
  \<^verbatim>\<open>ETag\<close>.
\<close>

definition no_options :: user_options where
  "no_options =
     \<lparr>u_checkInterval = None, u_versionUrl = None, u_compareStrategy = None,
      u_autoStart = None, u_retryTimes = None, u_retryInterval = None\<rparr>"

definition serving_host :: host where
  "serving_host = scripted_host [] (Resolves (ok_response [''etag'' \<mapsto> ''W/123'']))"

subsection \<open>Lemmas about one check\<close>

lemma check_try_failure:
  assumes "failure (fetch env (fetches s) (versionUrl (options s))) = Some e"
  shows "check_try env s = (Inl e, (emit env EvCheck Undefined s)\<lparr>fetches := Suc (fetches s)\<rparr>)"
  using assms
  by (auto simp add: check_try_def failure_def Let_def split: fetch_result.splits if_splits)

lemma check_try_Inl:
  assumes "check_try env s = (Inl e, s')"
  shows "failure (fetch env (fetches s) (versionUrl (options s))) = Some e"
  using assms
  by (auto simp add: check_try_def failure_def Let_def case_prod_unfold split: fetch_result.splits if_splits)

lemma check_try_Inr:
  assumes "check_try env s = (Inr v, s')"
  shows "\<exists>r. fetch env (fetches s) (versionUrl (options s)) = Resolves r \<and> ok r \<and>
           (let s2 = (emit env EvCheck Undefined s)\<lparr>fetches := Suc (fetches s)\<rparr>;
                c = compareVersion env (extract_marker (compareStrategy (options s)) (headers r)) s2
            in v = fst c \<and>
               s' = (if updateAvailable v then emit env EvUpdate (PInfo v) (snd c) else snd c))"
  using assms
  by (auto simp add: check_try_def Let_def case_prod_unfold split: fetch_result.splits if_splits)

lemma check_success:
  "check_try env s = (Inr v, s') \<Longrightarrow> check env s = (Inr v, s')"
  by (subst check.simps) simp

lemma check_exhausted:
  "check_try env s = (Inl e, s') \<Longrightarrow> \<not> int (retryCount s) < retryTimes (options s) \<Longrightarrow>
   check env s = (Inl e, (emit env EvError (PError e) s')\<lparr>retryCount := 0\<rparr>)"
  using check_try_fields(1,2) [of env s]
  by (subst check.simps) (simp add: Let_def)

lemma check_retry:
  "check_try env s = (Inl e, s') \<Longrightarrow> int (retryCount s) < retryTimes (options s) \<Longrightarrow>
   check env s =
     check env
       ((emit env EvRetry (PRetry e (Suc (retryCount s)))
          ((emit env EvError (PError e) s')\<lparr>retryCount := Suc (retryCount s)\<rparr>))
        \<lparr>timeouts := timeouts s' @ [retryInterval (options s)]\<rparr>)"
  using check_try_fields(1,2) [of env s]
  by (subst check.simps) (simp add: Let_def)

lemma payloads_of_append [simp]:
  "payloads_of ty (xs @ ys) = payloads_of ty xs @ payloads_of ty ys"
  by (simp add: payloads_of_def)

lemma payloads_of_untimed:
  "payloads_of ty evs = map snd (filter (\<lambda>p. fst p = ty) (map untimed evs))"
  by (induction evs) (simp_all add: payloads_of_def untimed_def)

lemma compareVersion_result:
  "currentVersion (fst (compareVersion env t s)) = versionTag s"
  "newVersion (fst (compareVersion env t s)) = t"
  "updateAvailable (fst (compareVersion env t s)) =
     (versionTag s \<noteq> None \<and> t \<noteq> None \<and> t \<noteq> versionTag s)"
  "timestamp (fst (compareVersion env t s)) = now env (ticks s)"
  "versionTag (snd (compareVersion env t s)) =
     (if versionTag s = None \<or> (t \<noteq> None \<and> t \<noteq> versionTag s) then t else versionTag s)"
  by (simp_all add: compareVersion_def Let_def)

lemma check_try_Inl_state:
  assumes "check_try env s = (Inl e, s')"
  shows "s' = (emit env EvCheck Undefined s)\<lparr>fetches := Suc (fetches s)\<rparr>"
  using check_try_failure [OF check_try_Inl [OF assms]] assms by simp

lemma check_try_success:
  assumes "check_try env s = (Inr v, s')"
  shows "\<exists>r evs. fetch env (fetches s) (versionUrl (options s)) = Resolves r \<and> ok r \<and>
           fetches s' = Suc (fetches s) \<and>
           emitted s' = emitted s @ evs \<and>
           currentVersion v = versionTag s \<and>
           newVersion v = extract_marker (compareStrategy (options s)) (headers r) \<and>
           updateAvailable v =
             (versionTag s \<noteq> None \<and> newVersion v \<noteq> None \<and> newVersion v \<noteq> versionTag s) \<and>
           versionTag s' =
             (if versionTag s = None \<or> updateAvailable v then newVersion v else versionTag s) \<and>
           map untimed evs =
             (EvCheck, Undefined) # (if updateAvailable v then [(EvUpdate, PInfo v)] else [])"
proof -
  from check_try_Inr [OF assms] obtain r where
    r: "fetch env (fetches s) (versionUrl (options s)) = Resolves r" "ok r"
    and v: "v = fst (compareVersion env (extract_marker (compareStrategy (options s)) (headers r))
                 ((emit env EvCheck Undefined s)\<lparr>fetches := Suc (fetches s)\<rparr>))"
    and s': "s' = (if updateAvailable v then emit env EvUpdate (PInfo v)
                 (snd (compareVersion env (extract_marker (compareStrategy (options s)) (headers r))
                 ((emit env EvCheck Undefined s)\<lparr>fetches := Suc (fetches s)\<rparr>)))
               else snd (compareVersion env (extract_marker (compareStrategy (options s)) (headers r))
                 ((emit env EvCheck Undefined s)\<lparr>fetches := Suc (fetches s)\<rparr>)))"
    by (auto simp: Let_def)
  have f: "fetches s' = Suc (fetches s)"
    using check_try_fields(5) [of env s] assms by simp
  have cur: "currentVersion v = versionTag s"
    and new: "newVersion v = extract_marker (compareStrategy (options s)) (headers r)"
    and upd: "updateAvailable v =
             (versionTag s \<noteq> None \<and> newVersion v \<noteq> None \<and> newVersion v \<noteq> versionTag s)"
    by (simp_all add: v compareVersion_result)
  have tag: "versionTag s' =
      (if versionTag s = None \<or> updateAvailable v then newVersion v else versionTag s)"
    using upd new by (auto simp: s' compareVersion_result)
  show ?thesis
  proof (cases "updateAvailable v")
    case True
    let ?evs = "[\<lparr>ev_type = EvCheck, ev_payload = Undefined, ev_timestamp = now env (ticks s)\<rparr>,
                 \<lparr>ev_type = EvUpdate, ev_payload = PInfo v,
                  ev_timestamp = now env (Suc (Suc (ticks s)))\<rparr>]"
    have "emitted s' = emitted s @ ?evs"
      using True by (simp add: s')
    moreover have "map untimed ?evs = [(EvCheck, Undefined), (EvUpdate, PInfo v)]"
      by (simp add: untimed_def)
    ultimately show ?thesis
      using r f cur new upd tag True by (intro exI [of _ r] exI [of _ ?evs]) simp
  next
    case False
    let ?evs = "[\<lparr>ev_type = EvCheck, ev_payload = Undefined, ev_timestamp = now env (ticks s)\<rparr>]"
    have "emitted s' = emitted s @ ?evs"
      using False by (simp add: s')
    moreover have "map untimed ?evs = [(EvCheck, Undefined)]"
      by (simp add: untimed_def)
    ultimately show ?thesis
      using r f cur new upd tag False by (intro exI [of _ r] exI [of _ ?evs]) simp
  qed
qed

lemma settled:
  assumes "check env s = (r, s')"
  shows "options s' = options s \<and> fetches s < fetches s' \<and>
    (\<exists>evs. emitted s' = emitted s @ evs \<and>
       (case r of
          Inl e \<Rightarrow>
            failure (fetch env (fetches s' - 1) (versionUrl (options s))) = Some e \<and>
            versionTag s' = versionTag s \<and> retryCount s' = 0 \<and> payloads_of EvUpdate evs = []
        | Inr v \<Rightarrow>
            (\<exists>r0. fetch env (fetches s' - 1) (versionUrl (options s)) = Resolves r0 \<and> ok r0 \<and>
               newVersion v = extract_marker (compareStrategy (options s)) (headers r0)) \<and>
            currentVersion v = versionTag s \<and>
            updateAvailable v =
              (versionTag s \<noteq> None \<and> newVersion v \<noteq> None \<and> newVersion v \<noteq> versionTag s) \<and>
            versionTag s' =
              (if versionTag s = None \<or> updateAvailable v then newVersion v else versionTag s) \<and>
            payloads_of EvUpdate evs = (if updateAvailable v then [PInfo v] else [])))"
  using assms
proof (induction "nat (retryTimes (options s) - int (retryCount s))" arbitrary: s rule: less_induct)
  case less
  obtain x y where t: "check_try env s = (x, y)"
    by (cases "check_try env s")
  show ?case
  proof (cases x)
    case (Inr v)
    have res: "r = Inr v" "s' = y"
      using check_success [of env s v y] t Inr less.prems by simp_all
    from check_try_success [OF t [unfolded Inr]] obtain r0 evs where
      r0: "fetch env (fetches s) (versionUrl (options s)) = Resolves r0" "ok r0"
      and f: "fetches y = Suc (fetches s)" and e: "emitted y = emitted s @ evs"
      and c: "currentVersion v = versionTag s"
      and n: "newVersion v = extract_marker (compareStrategy (options s)) (headers r0)"
      and u: "updateAvailable v =
         (versionTag s \<noteq> None \<and> newVersion v \<noteq> None \<and> newVersion v \<noteq> versionTag s)"
      and g: "versionTag y =
         (if versionTag s = None \<or> updateAvailable v then newVersion v else versionTag s)"
      and sig: "map untimed evs =
         (EvCheck, Undefined) # (if updateAvailable v then [(EvUpdate, PInfo v)] else [])"
      by (elim exE conjE) (rule that)
    have p: "payloads_of EvUpdate evs = (if updateAvailable v then [PInfo v] else [])"
      using sig by (simp add: payloads_of_untimed)
    have o: "options y = options s"
      using check_try_fields(2) [of env s] t by simp
    have "\<exists>r0. fetch env (fetches y - 1) (versionUrl (options s)) = Resolves r0 \<and> ok r0 \<and>
               newVersion v = extract_marker (compareStrategy (options s)) (headers r0)"
      using r0 n f by simp
    then show ?thesis
      unfolding res using o f e c u g p by (simp del: not_None_eq One_nat_def)
  next
    case (Inl e)
    have y: "y = (emit env EvCheck Undefined s)\<lparr>fetches := Suc (fetches s)\<rparr>"
      using check_try_Inl_state t Inl by simp
    have fail: "failure (fetch env (fetches s) (versionUrl (options s))) = Some e"
      using check_try_Inl t Inl by simp
    show ?thesis
    proof (cases "int (retryCount s) < retryTimes (options s)")
      case False
      have "check env s = (Inl e, (emit env EvError (PError e) y)\<lparr>retryCount := 0\<rparr>)"
        using check_exhausted t Inl False by simp
      then have res: "r = Inl e" "s' = (emit env EvError (PError e) y)\<lparr>retryCount := 0\<rparr>"
        using less.prems by simp_all
      show ?thesis
        unfolding res using fail by (simp add: y payloads_of_def)
    next
      case True
      let ?s4 = "(emit env EvRetry (PRetry e (Suc (retryCount s)))
          ((emit env EvError (PError e) y)\<lparr>retryCount := Suc (retryCount s)\<rparr>))
        \<lparr>timeouts := timeouts y @ [retryInterval (options s)]\<rparr>"
      have step: "check env ?s4 = (r, s')"
        using check_retry [of env s e y] t Inl True less.prems by simp
      have "nat (retryTimes (options ?s4) - int (retryCount ?s4))
              < nat (retryTimes (options s) - int (retryCount s))"
        using True by (simp add: y)
      from less.hyps [OF this step]
      have IH: "options s' = options ?s4 \<and> fetches ?s4 < fetches s' \<and>
        (\<exists>evs. emitted s' = emitted ?s4 @ evs \<and>
         (case r of
            Inl e \<Rightarrow>
              failure (fetch env (fetches s' - 1) (versionUrl (options ?s4))) = Some e \<and>
              versionTag s' = versionTag ?s4 \<and> retryCount s' = 0 \<and> payloads_of EvUpdate evs = []
          | Inr v \<Rightarrow>
              (\<exists>r0. fetch env (fetches s' - 1) (versionUrl (options ?s4)) = Resolves r0 \<and> ok r0 \<and>
                 newVersion v = extract_marker (compareStrategy (options ?s4)) (headers r0)) \<and>
              currentVersion v = versionTag ?s4 \<and>
              updateAvailable v =
                (versionTag ?s4 \<noteq> None \<and> newVersion v \<noteq> None \<and> newVersion v \<noteq> versionTag ?s4) \<and>
              versionTag s' =
                (if versionTag ?s4 = None \<or> updateAvailable v then newVersion v else versionTag ?s4) \<and>
              payloads_of EvUpdate evs = (if updateAvailable v then [PInfo v] else [])))" .
      have o4: "options ?s4 = options s" and v4: "versionTag ?s4 = versionTag s"
        and f4: "fetches ?s4 = Suc (fetches s)"
        by (simp_all add: y)
      obtain pre where e4: "emitted ?s4 = emitted s @ pre" and pre: "payloads_of EvUpdate pre = []"
        by (simp add: y payloads_of_def)
      from IH obtain evs where evs: "emitted s' = emitted ?s4 @ evs" and
        rest: "(case r of
            Inl e \<Rightarrow>
              failure (fetch env (fetches s' - 1) (versionUrl (options s))) = Some e \<and>
              versionTag s' = versionTag s \<and> retryCount s' = 0 \<and> payloads_of EvUpdate evs = []
          | Inr v \<Rightarrow>
              (\<exists>r0. fetch env (fetches s' - 1) (versionUrl (options s)) = Resolves r0 \<and> ok r0 \<and>
                 newVersion v = extract_marker (compareStrategy (options s)) (headers r0)) \<and>
              currentVersion v = versionTag s \<and>
              updateAvailable v =
                (versionTag s \<noteq> None \<and> newVersion v \<noteq> None \<and> newVersion v \<noteq> versionTag s) \<and>
              versionTag s' =
                (if versionTag s = None \<or> updateAvailable v then newVersion v else versionTag s) \<and>
              payloads_of EvUpdate evs = (if updateAvailable v then [PInfo v] else []))"
        unfolding o4 v4 by blast
      have app: "emitted s' = emitted s @ (pre @ evs)"
        using evs e4 by simp
      have "\<exists>evs. emitted s' = emitted s @ evs \<and>
         (case r of
            Inl e \<Rightarrow>
              failure (fetch env (fetches s' - 1) (versionUrl (options s))) = Some e \<and>
              versionTag s' = versionTag s \<and> retryCount s' = 0 \<and> payloads_of EvUpdate evs = []
          | Inr v \<Rightarrow>
              (\<exists>r0. fetch env (fetches s' - 1) (versionUrl (options s)) = Resolves r0 \<and> ok r0 \<and>
                 newVersion v = extract_marker (compareStrategy (options s)) (headers r0)) \<and>
              currentVersion v = versionTag s \<and>
              updateAvailable v =
                (versionTag s \<noteq> None \<and> newVersion v \<noteq> None \<and> newVersion v \<noteq> versionTag s) \<and>
              versionTag s' =
                (if versionTag s = None \<or> updateAvailable v then newVersion v else versionTag s) \<and>
              payloads_of EvUpdate evs = (if updateAvailable v then [PInfo v] else []))"
        using rest pre app by (intro exI [of _ "pre @ evs"]) (cases r; simp)
      then show ?thesis
        using IH o4 f4 by simp
    qed
  qed
qed

lemma check_try_ok:
  assumes "fetch env (fetches s) (versionUrl (options s)) = Resolves r" "ok r"
  shows "\<exists>v s'. check_try env s = (Inr v, s')"
  using assms by (simp add: check_try_def Let_def case_prod_unfold)

lemma upt_Suc_shift: "[0..<Suc k] = 0 # map Suc [0..<k]"
  by (simp add: upt_conv_Cons map_Suc_upt del: upt_Suc)

lemma retry_chain:
  assumes "\<forall>i<k. failure (fetch env (fetches s + i) (versionUrl (options s))) \<noteq> None"
    and "fetch env (fetches s + k) (versionUrl (options s)) = Resolves r" and "ok r"
    and "int (retryCount s + k) \<le> retryTimes (options s)"
  shows "\<exists>v s' evs. check env s = (Inr v, s') \<and>
           fetches s' = Suc (fetches s + k) \<and> retryCount s' = retryCount s + k \<and>
           timeouts s' = timeouts s @ replicate k (retryInterval (options s)) \<and>
           emitted s' = emitted s @ evs \<and>
           map untimed evs =
             concat (map (\<lambda>i. failed_attempt
                            (the (failure (fetch env (fetches s + i) (versionUrl (options s)))))
                            (retryCount s + i + 1)) [0..<k])
             @ (EvCheck, Undefined) # (if updateAvailable v then [(EvUpdate, PInfo v)] else []) \<and>
           newVersion v = extract_marker (compareStrategy (options s)) (headers r) \<and>
           currentVersion v = versionTag s"
  using assms
proof (induction k arbitrary: s)
  case 0
  from check_try_ok [of env s r] 0 obtain v s' where t: "check_try env s = (Inr v, s')"
    by auto
  from check_try_success [OF t] obtain r0 evs where
      r0: "fetch env (fetches s) (versionUrl (options s)) = Resolves r0"
      and f: "fetches s' = Suc (fetches s)" and e: "emitted s' = emitted s @ evs"
      and c: "currentVersion v = versionTag s"
      and n: "newVersion v = extract_marker (compareStrategy (options s)) (headers r0)"
      and sig: "map untimed evs =
        (EvCheck, Undefined) # (if updateAvailable v then [(EvUpdate, PInfo v)] else [])"
    by (elim exE conjE) (rule that)
  have r0r: "r0 = r"
    using r0 0 by simp
  have "check env s = (Inr v, s')"
    using check_success t by simp
  moreover have "retryCount s' = retryCount s" "timeouts s' = timeouts s"
    using check_try_fields(1,6) [of env s] t by simp_all
  ultimately show ?case
    using f e sig n c r0r by simp
next
  case (Suc k)
  let ?url = "versionUrl (options s)"
  from Suc.prems(1) obtain e where e: "failure (fetch env (fetches s) ?url) = Some e"
    by (metis add.right_neutral not_None_eq zero_less_Suc)
  let ?y = "(emit env EvCheck Undefined s)\<lparr>fetches := Suc (fetches s)\<rparr>"
  let ?s4 = "(emit env EvRetry (PRetry e (Suc (retryCount s)))
          ((emit env EvError (PError e) ?y)\<lparr>retryCount := Suc (retryCount s)\<rparr>))
        \<lparr>timeouts := timeouts ?y @ [retryInterval (options s)]\<rparr>"
  have t: "check_try env s = (Inl e, ?y)"
    using check_try_failure [OF e] .
  have lt: "int (retryCount s) < retryTimes (options s)"
    using Suc.prems(4) by simp
  have step: "check env s = check env ?s4"
    using check_retry [OF t lt] .
  have o4: "options ?s4 = options s" and f4: "fetches ?s4 = Suc (fetches s)"
    and c4: "retryCount ?s4 = Suc (retryCount s)" and v4: "versionTag ?s4 = versionTag s"
    and t4: "timeouts ?s4 = timeouts s @ [retryInterval (options s)]"
    by simp_all
  obtain pre where e4: "emitted ?s4 = emitted s @ pre"
    and pre: "map untimed pre = failed_attempt e (retryCount s + 1)"
    by (simp add: untimed_def failed_attempt_def)
  have "\<forall>i<k. failure (fetch env (fetches ?s4 + i) (versionUrl (options ?s4))) \<noteq> None"
    using Suc.prems(1) unfolding o4 f4 by auto
  moreover have "fetch env (fetches ?s4 + k) (versionUrl (options ?s4)) = Resolves r"
    using Suc.prems(2) unfolding o4 f4 by simp
  moreover have "int (retryCount ?s4 + k) \<le> retryTimes (options ?s4)"
    using Suc.prems(4) unfolding o4 c4 by simp
  ultimately obtain v s' evs where IH: "check env ?s4 = (Inr v, s')"
      "fetches s' = Suc (fetches ?s4 + k)" "retryCount s' = retryCount ?s4 + k"
      "timeouts s' = timeouts ?s4 @ replicate k (retryInterval (options ?s4))"
      "emitted s' = emitted ?s4 @ evs"
      "map untimed evs =
             concat (map (\<lambda>i. failed_attempt
                            (the (failure (fetch env (fetches ?s4 + i) (versionUrl (options ?s4)))))
                            (retryCount ?s4 + i + 1)) [0..<k])
             @ (EvCheck, Undefined) # (if updateAvailable v then [(EvUpdate, PInfo v)] else [])"
      "newVersion v = extract_marker (compareStrategy (options ?s4)) (headers r)"
      "currentVersion v = versionTag ?s4"
    using Suc.IH [of ?s4, OF _ _ \<open>ok r\<close>] by blast
  have "emitted s' = emitted s @ (pre @ evs)"
    using IH(5) e4 by simp
  moreover have "map untimed (pre @ evs) =
      concat (map (\<lambda>i. failed_attempt
                            (the (failure (fetch env (fetches s + i) ?url)))
                            (retryCount s + i + 1)) [0..<Suc k])
             @ (EvCheck, Undefined) # (if updateAvailable v then [(EvUpdate, PInfo v)] else [])"
    unfolding upt_Suc_shift using IH(6) pre e
    by (simp add: o4 f4 c4 comp_def del: upt_Suc)
  moreover have "timeouts s' = timeouts s @ replicate (Suc k) (retryInterval (options s))"
    using IH(4) by (simp add: o4 t4 replicate_append_same)
  ultimately show ?case
    using IH(1,2,3,7,8) step unfolding o4 f4 c4 v4
    by (intro exI [of _ v] exI [of _ s'] exI [of _ "pre @ evs"]) simp
qed

lemma fold_call_listener_traces:
  "invoked (fold (call_listener env e) cbs s) = invoked s @ map (\<lambda>cb. (cb, e)) cbs"
  "console (fold (call_listener env e) cbs s) =
     console s @ List.map_filter (\<lambda>cb. callback env cb e) cbs"
  by (induction cbs arbitrary: s)
     (simp_all add: call_listener_def Let_def map_filter_simps split: option.splits)

lemma emit_traces:
  "invoked (emit env ev p s) =
     invoked s @ map (\<lambda>cb. (cb, \<lparr>ev_type = ev, ev_payload = p, ev_timestamp = now env (ticks s)\<rparr>))
                   (listeners s ev)"
  "console (emit env ev p s) =
     console s @ List.map_filter
       (\<lambda>cb. callback env cb \<lparr>ev_type = ev, ev_payload = p, ev_timestamp = now env (ticks s)\<rparr>)
       (listeners s ev)"
  by (simp_all add: emit_def Let_def listeners_def fold_call_listener_traces map_filter_simps
        split: option.splits)

lemma same_checker_updates:
  "same_checker s t \<Longrightarrow> same_checker (s\<lparr>fetches := n\<rparr>) (t\<lparr>fetches := n\<rparr>)"
  "same_checker s t \<Longrightarrow> same_checker (s\<lparr>retryCount := c\<rparr>) (t\<lparr>retryCount := c\<rparr>)"
  "same_checker s t \<Longrightarrow> same_checker (s\<lparr>timeouts := ds\<rparr>) (t\<lparr>timeouts := ds\<rparr>)"
  by (simp_all add: same_checker_def)

lemma emit_same:
  "same_checker s t \<Longrightarrow> now env' = now env \<Longrightarrow>
   same_checker (emit env ev p s) (emit env' ev p t)"
  by (simp add: same_checker_def)

lemma compareVersion_fst:
  "fst (compareVersion env t s) =
     \<lparr>currentVersion = versionTag s, newVersion = t,
      updateAvailable = (versionTag s \<noteq> None \<and> t \<noteq> None \<and> t \<noteq> versionTag s),
      timestamp = now env (ticks s)\<rparr>"
  by (simp add: compareVersion_def Let_def)

lemma compareVersion_same:
  "same_checker s t \<Longrightarrow> now env' = now env \<Longrightarrow>
   fst (compareVersion env' m t) = fst (compareVersion env m s) \<and>
   same_checker (snd (compareVersion env m s)) (snd (compareVersion env' m t))"
  by (auto simp add: compareVersion_fst same_checker_def compareVersion_result)

lemma check_try_same:
  assumes "same_checker s t" "fetch env' = fetch env" "now env' = now env"
  shows "fst (check_try env' t) = fst (check_try env s) \<and>
         same_checker (snd (check_try env s)) (snd (check_try env' t))"
proof -
  let ?s2 = "(emit env EvCheck Undefined s)\<lparr>fetches := Suc (fetches s)\<rparr>"
  let ?t2 = "(emit env' EvCheck Undefined t)\<lparr>fetches := Suc (fetches t)\<rparr>"
  have eq: "fetches t = fetches s" "options t = options s"
    using assms(1) by (simp_all add: same_checker_def)
  have s2: "same_checker ?s2 ?t2"
    using same_checker_updates(1) [OF emit_same [OF assms(1,3), of EvCheck Undefined]] eq
    by simp
  show ?thesis
  proof (cases "fetch env (fetches s) (versionUrl (options s))")
    case (Rejects e)
    then show ?thesis
      using s2 eq assms(2) by (simp add: check_try_def Let_def)
  next
    case (Resolves r)
    let ?m = "extract_marker (compareStrategy (options s)) (headers r)"
    have c: "fst (compareVersion env' ?m ?t2) = fst (compareVersion env ?m ?s2)"
      "same_checker (snd (compareVersion env ?m ?s2)) (snd (compareVersion env' ?m ?t2))"
      using compareVersion_same [OF s2 assms(3)] by simp_all
    show ?thesis
      using Resolves s2 eq assms(2,3) c emit_same [OF c(2) assms(3)]
      by (simp add: check_try_def Let_def case_prod_unfold)
  qed
qed

lemma check_same:
  assumes "same_checker s t" "fetch env' = fetch env" "now env' = now env"
  shows "fst (check env' t) = fst (check env s) \<and>
         same_checker (snd (check env s)) (snd (check env' t))"
  using assms(1)
proof (induction "nat (retryTimes (options s) - int (retryCount s))" arbitrary: s t
        rule: less_induct)
  case less
  obtain x y where ts: "check_try env s = (x, y)"
    by (cases "check_try env s")
  obtain x' y' where tt: "check_try env' t = (x', y')"
    by (cases "check_try env' t")
  have xx: "x' = x" and yy: "same_checker y y'"
    using check_try_same [OF less.prems assms(2,3)] ts tt by simp_all
  have eq: "retryCount t = retryCount s" "options t = options s"
    using less.prems by (simp_all add: same_checker_def)
  have oy: "options y = options s" "options y' = options s" "timeouts y' = timeouts y"
    using check_try_fields(2) [of env s] check_try_fields(2) [of env' t] ts tt eq yy
    by (simp_all add: same_checker_def)
  show ?case
  proof (cases x)
    case (Inr v)
    then show ?thesis
      using check_success [of env s v y] check_success [of env' t v y'] ts tt xx yy by simp
  next
    case (Inl e)
    show ?thesis
    proof (cases "int (retryCount s) < retryTimes (options s)")
      case False
      have "same_checker ((emit env EvError (PError e) y)\<lparr>retryCount := 0\<rparr>)
              ((emit env' EvError (PError e) y')\<lparr>retryCount := 0\<rparr>)"
        by (rule same_checker_updates(2) [OF emit_same [OF yy assms(3)]])
      then show ?thesis
        using check_exhausted [of env s e y] check_exhausted [of env' t e y'] ts tt xx Inl False eq
        by simp
    next
      case True
      let ?s4 = "(emit env EvRetry (PRetry e (Suc (retryCount s)))
          ((emit env EvError (PError e) y)\<lparr>retryCount := Suc (retryCount s)\<rparr>))
        \<lparr>timeouts := timeouts y @ [retryInterval (options s)]\<rparr>"
      let ?t4 = "(emit env' EvRetry (PRetry e (Suc (retryCount s)))
          ((emit env' EvError (PError e) y')\<lparr>retryCount := Suc (retryCount s)\<rparr>))
        \<lparr>timeouts := timeouts y' @ [retryInterval (options s)]\<rparr>"
      have 1: "same_checker ((emit env EvError (PError e) y)\<lparr>retryCount := Suc (retryCount s)\<rparr>)
                 ((emit env' EvError (PError e) y')\<lparr>retryCount := Suc (retryCount s)\<rparr>)"
        by (rule same_checker_updates(2) [OF emit_same [OF yy assms(3)]])
      have 4: "same_checker ?s4 ?t4"
        using same_checker_updates(3) [OF emit_same [OF 1 assms(3)]] oy(3) by simp
      have "nat (retryTimes (options ?s4) - int (retryCount ?s4))
              < nat (retryTimes (options s) - int (retryCount s))"
        using True check_try_fields(1) [of env s] ts by (simp add: oy)
      from less.hyps [OF this 4]
      show ?thesis
        using check_retry [of env s e y] check_retry [of env' t e y'] ts tt xx Inl True eq
        by simp
    qed
  qed
qed

lemma same_checker_refl: "same_checker s s"
  by (simp add: same_checker_def)

lemma check_fields:
  "options (snd (check env s)) = options s \<and> timer (snd (check env s)) = timer s \<and>
   eventListeners (snd (check env s)) = eventListeners s \<and>
   intervals (snd (check env s)) = intervals s \<and> next_timer (snd (check env s)) = next_timer s"
proof (induction "nat (retryTimes (options s) - int (retryCount s))" arbitrary: s
        rule: less_induct)
  case less
  obtain x y where t: "check_try env s = (x, y)"
    by (cases "check_try env s")
  have y: "options y = options s" "timer y = timer s" "eventListeners y = eventListeners s"
    "intervals y = intervals s" "next_timer y = next_timer s" "retryCount y = retryCount s"
    using check_try_fields [of env s] t by simp_all
  show ?case
  proof (cases x)
    case (Inr v)
    then show ?thesis
      using check_success [of env s v y] t y by simp
  next
    case (Inl e)
    show ?thesis
    proof (cases "int (retryCount s) < retryTimes (options s)")
      case False
      then show ?thesis
        using check_exhausted [of env s e y] t Inl y by simp
    next
      case True
      let ?s4 = "(emit env EvRetry (PRetry e (Suc (retryCount s)))
          ((emit env EvError (PError e) y)\<lparr>retryCount := Suc (retryCount s)\<rparr>))
        \<lparr>timeouts := timeouts y @ [retryInterval (options s)]\<rparr>"
      have "nat (retryTimes (options ?s4) - int (retryCount ?s4))
              < nat (retryTimes (options s) - int (retryCount s))"
        using True by (simp add: y)
      from less.hyps [OF this] show ?thesis
        using check_retry [of env s e y] t Inl True by (simp add: y)
    qed
  qed
qed

lemma check_rejects:
  assumes "check env s = (Inl e, s')"
  shows "versionTag s' = versionTag s"
    and "failure (fetch env (fetches s' - 1) (versionUrl (options s))) = Some e"
  using settled [OF assms] by auto

lemma check_resolves:
  assumes "check env s = (Inr v, s')"
  shows "\<exists>r0. fetch env (fetches s' - 1) (versionUrl (options s)) = Resolves r0 \<and> ok r0 \<and>
               newVersion v = extract_marker (compareStrategy (options s)) (headers r0)"
    and "currentVersion v = versionTag s"
    and "updateAvailable v =
           (versionTag s \<noteq> None \<and> newVersion v \<noteq> None \<and> newVersion v \<noteq> versionTag s)"
    and "versionTag s' =
           (if versionTag s = None \<or> updateAvailable v then newVersion v else versionTag s)"
    and "\<exists>evs. emitted s' = emitted s @ evs \<and>
           payloads_of EvUpdate evs = (if updateAvailable v then [PInfo v] else [])"
  using settled [OF assms] by auto

lemma first_attempt_resolves:
  assumes "fetch env (fetches s) (versionUrl (options s)) = Resolves r" "ok r"
  shows "\<exists>v s'. check env s = (Inr v, s') \<and>
           newVersion v = extract_marker (compareStrategy (options s)) (headers r)"
proof -
  from check_try_ok [OF assms] obtain v s' where t: "check_try env s = (Inr v, s')"
    by blast
  from check_try_success [OF t] assms(1)
  have "newVersion v = extract_marker (compareStrategy (options s)) (headers r)"
    by auto
  then show ?thesis
    using check_success [OF t] by blast
qed

lemma versionTag_stop: "versionTag (stop env s) = versionTag s"
  by (cases "timer s") (simp_all add: stop_def)

lemma versionTag_on: "versionTag (on ev cb s) = versionTag s"
proof (cases "eventListeners s ev")
  case None
  then show ?thesis by (simp add: on_def)
next
  case (Some cbs)
  then show ?thesis by (simp add: on_def)
qed

lemma versionTag_off: "versionTag (off ev cb s) = versionTag s"
  by (cases "eventListeners s ev") (simp_all add: off_def)

lemma failed_attempts_payloads:
  "map snd (filter (\<lambda>p. fst p = EvRetry) (concat (map (\<lambda>i. failed_attempt (g i) (h i)) xs)))
     = map (\<lambda>i. PRetry (g i) (h i)) xs"
  "map snd (filter (\<lambda>p. fst p = EvError) (concat (map (\<lambda>i. failed_attempt (g i) (h i)) xs)))
     = map (\<lambda>i. PError (g i)) xs"
  by (induction xs) (simp_all add: failed_attempt_def)

lemma checks_Suc:
  "checks env (Suc n) s =
     (fst (check env s) # fst (checks env n (snd (check env s))),
      snd (checks env n (snd (check env s))))"
  by (simp add: case_prod_unfold Let_def)

lemma checks_null_markers:
  assumes "versionTag s = None"
    and "\<forall>v. Inr v \<in> set (fst (checks env n s)) \<longrightarrow> newVersion v = None"
  shows "versionTag (snd (checks env n s)) = None \<and>
         (\<forall>v. Inr v \<in> set (fst (checks env n s)) \<longrightarrow> \<not> updateAvailable v)"
  using assms
proof (induction n arbitrary: s)
  case 0
  then show ?case by simp
next
  case (Suc n)
  obtain r s1 where c: "check env s = (r, s1)"
    by (cases "check env s")
  have eq: "fst (checks env (Suc n) s) = r # fst (checks env n s1)"
    "snd (checks env (Suc n) s) = snd (checks env n s1)"
    by (simp_all only: checks_Suc c fst_conv snd_conv)
  have null: "\<forall>v. Inr v \<in> set (r # fst (checks env n s1)) \<longrightarrow> newVersion v = None"
    using Suc.prems(2) by (simp only: eq)
  have first: "\<not> updateAvailable v" if "r = Inr v" for v
  proof -
    have "check env s = (Inr v, s1)"
      using c that by simp
    from check_resolves(3) [OF this] show ?thesis
      using Suc.prems(1) by simp
  qed
  have tag: "versionTag s1 = None"
  proof (cases r)
    case (Inl e)
    then show ?thesis
      using check_rejects(1) [of env s e s1] c Suc.prems(1) by simp
  next
    case (Inr v)
    then have "Inr v \<in> set (r # fst (checks env n s1))"
      by simp
    with null have "newVersion v = None"
      by blast
    moreover have "check env s = (Inr v, s1)"
      using c Inr by simp
    ultimately show ?thesis
      using check_resolves(4) [of env s v s1] Suc.prems(1) by simp
  qed
  have "\<forall>v. Inr v \<in> set (fst (checks env n s1)) \<longrightarrow> newVersion v = None"
    using null by (meson list.set_intros(2))
  from Suc.IH [OF tag this]
  have IH: "versionTag (snd (checks env n s1)) = None"
    "\<forall>v. Inr v \<in> set (fst (checks env n s1)) \<longrightarrow> \<not> updateAvailable v"
    by blast+
  have "\<not> updateAvailable v" if "Inr v \<in> set (r # fst (checks env n s1))" for v
  proof (cases "r = Inr v")
    case True
    then show ?thesis by (rule first)
  next
    case False
    then have "Inr v \<in> set (fst (checks env n s1))"
      using that by (metis set_ConsD)
    then show ?thesis
      using IH(2) by blast
  qed
  then show ?case
    unfolding eq using IH(1) by blast
qed

lemma resolves_step:
  assumes "fetch env (fetches s) (versionUrl (options s)) = Resolves r" and "ok r"
    and "int (retryCount s) \<le> retryTimes (options s)"
  shows "\<exists>v s'. check env s = (Inr v, s') \<and>
           newVersion v = extract_marker (compareStrategy (options s)) (headers r) \<and>
           fetches s' = Suc (fetches s) \<and> retryCount s' = retryCount s \<and>
           options s' = options s"
proof -
  have a: "\<forall>i<0. failure (fetch env (fetches s + i) (versionUrl (options s))) \<noteq> None"
    by simp
  have b: "fetch env (fetches s + 0) (versionUrl (options s)) = Resolves r"
    using assms(1) by simp
  have d: "int (retryCount s + 0) \<le> retryTimes (options s)"
    using assms(3) by simp
  from retry_chain [OF a b assms(2) d] obtain v s' where c: "check env s = (Inr v, s')"
    and f: "fetches s' = Suc (fetches s + 0)" and q: "retryCount s' = retryCount s + 0"
    and n: "newVersion v = extract_marker (compareStrategy (options s)) (headers r)"
    by (elim exE conjE) (rule that)
  have "options s' = options s"
    using check_fields [of env s] c by simp
  then show ?thesis
    using c f q n by (intro exI [of _ v] exI [of _ s']) simp
qed

subsection \<open>Lemmas about the timer\<close>

lemma start_armed: "timer s \<noteq> None \<Longrightarrow> start env s = s"
  by (simp add: start_def)

lemma stop_unarmed: "timer s = None \<Longrightarrow> stop env s = s"
  by (simp add: stop_def)

lemma timer_start: "timer (start env s) \<noteq> None"
  by (simp add: start_def Let_def)

lemma timer_stop: "timer (stop env s) = None"
  by (cases "timer s") (simp_all add: stop_def)

lemma timer_owned_start: "timer_owned s \<Longrightarrow> timer_owned (start env s)"
proof (cases "timer s")
  case None
  assume "timer_owned s"
  then have "intervals s = []"
    using None by (simp add: timer_owned_def)
  then have "intervals (snd (check env (emit env EvStart Undefined s))) = []"
    using check_fields [of env "emit env EvStart Undefined s"] by simp
  then show ?thesis
    using None by (simp add: start_def Let_def timer_owned_def)
next
  case (Some h)
  assume "timer_owned s"
  then show ?thesis
    using Some by (simp add: start_def)
qed

lemma timer_owned_stop: "timer_owned s \<Longrightarrow> timer_owned (stop env s)"
  by (cases "timer s") (simp_all add: stop_def timer_owned_def)

lemma timer_owned_check: "timer_owned s \<Longrightarrow> timer_owned (snd (check env s))"
  using check_fields [of env s] by (simp add: timer_owned_def)

lemma timer_owned_on: "timer_owned s \<Longrightarrow> timer_owned (on ev cb s)"
  by (cases "eventListeners s ev") (simp_all add: on_def timer_owned_def)

lemma timer_owned_off: "timer_owned s \<Longrightarrow> timer_owned (off ev cb s)"
  by (cases "eventListeners s ev") (simp_all add: off_def timer_owned_def)

lemma timer_owned_step: "timer_owned s \<Longrightarrow> timer_owned (step env c s)"
  by (cases c)
     (simp_all add: timer_owned_start timer_owned_stop timer_owned_check timer_owned_on
        timer_owned_off)

lemma timer_owned_run: "timer_owned s \<Longrightarrow> timer_owned (run env cs s)"
  by (induction cs arbitrary: s) (simp_all add: timer_owned_step)

lemma timer_owned_new: "timer_owned (new_VersionChecker env u)"
proof -
  have "timer_owned (fresh (merge_options u))"
    by (simp add: timer_owned_def fresh_def)
  then show ?thesis
    by (simp add: new_VersionChecker_def Let_def timer_owned_start)
qed

lemma run_append: "run env (cs @ ds) s = run env ds (run env cs s)"
  by (induction cs arbitrary: s) simp_all

subsection \<open>The properties\<close>

text \<open>
  C1. The property is that the retry counter is 0 after every successful check, so that
  the next failing check has all its \<^verbatim>\<open>retryTimes\<close> retries. The code resets the counter
  only when the retries are used up: a success reached after retries leaves it where
  the retries put it. With \<^verbatim>\<open>retryTimes\<close> 1, after a check that fails once and then
  succeeds the counter is 1, and the next check, whose fetch fails, rejects after a
  single attempt without any \<^verbatim>\<open>retry\<close> event.
\<close>

theorem retry_counter_survives_success:
  "\<exists>v s1 s2.
     check flaky_host (fresh (DEFAULT_OPTIONS\<lparr>autoStart := False, retryTimes := 1\<rparr>)) = (Inr v, s1) \<and>
     retryCount s1 = 1 \<and>
     check flaky_host s1 = (Inl (JsError ''Network error''), s2) \<and>
     fetches s2 = Suc (fetches s1) \<and>
     payloads_of EvRetry (drop (length (emitted s1)) (emitted s2)) = []"
proof -
  let ?s = "fresh (DEFAULT_OPTIONS\<lparr>autoStart := False, retryTimes := 1\<rparr>)"
  let ?url = "versionUrl (options ?s)"
  let ?e = "JsError ''Network error''"
  have z: "fetches ?s = 0" "retryCount ?s = 0" "retryTimes (options ?s) = 1"
    by (simp_all add: fresh_def)
  have f0: "\<forall>i<1. failure (fetch flaky_host (fetches ?s + i) ?url) \<noteq> None"
    by (simp add: failure_def flaky_host_def scripted_host_def z)
  have f1: "fetch flaky_host (fetches ?s + 1) ?url = Resolves (ok_response [''etag'' \<mapsto> ''W/123''])"
    by (simp add: flaky_host_def scripted_host_def z)
  have k: "ok (ok_response [''etag'' \<mapsto> ''W/123''])"
    by (simp add: ok_response_def)
  have b: "int (retryCount ?s + 1) \<le> retryTimes (options ?s)"
    by (simp add: z)
  from retry_chain [OF f0 f1 k b] obtain v s1 where
    c1: "check flaky_host ?s = (Inr v, s1)" and n1: "fetches s1 = Suc (fetches ?s + 1)"
    and r1: "retryCount s1 = retryCount ?s + 1"
    by (elim exE conjE) (rule that)
  have o1: "options s1 = options ?s"
    using check_fields [of flaky_host ?s] c1 by simp
  have f2: "failure (fetch flaky_host (fetches s1) (versionUrl (options s1))) = Some ?e"
    by (simp add: n1 o1 z failure_def flaky_host_def scripted_host_def)
  let ?y = "(emit flaky_host EvCheck Undefined s1)\<lparr>fetches := Suc (fetches s1)\<rparr>"
  let ?s2 = "(emit flaky_host EvError (PError ?e) ?y)\<lparr>retryCount := 0\<rparr>"
  have t: "check_try flaky_host s1 = (Inl ?e, ?y)"
    by (rule check_try_failure [OF f2])
  have "\<not> int (retryCount s1) < retryTimes (options s1)"
    by (simp add: r1 o1 z)
  with t have c2: "check flaky_host s1 = (Inl ?e, ?s2)"
    by (rule check_exhausted)
  have "fetches ?s2 = Suc (fetches s1)"
    by simp
  moreover have "payloads_of EvRetry (drop (length (emitted s1)) (emitted ?s2)) = []"
    by (simp add: payloads_of_def)
  moreover have "retryCount s1 = 1"
    using r1 z by simp
  ultimately show ?thesis
    using c1 c2 by blast
qed

text \<open>
  C2. With \<^verbatim>\<open>retryTimes\<close> \<open>N > 0\<close> and the retry counter at 0, when the fetch fails on the
  first \<open>N\<close> attempts of a check and succeeds on the next one, \<^verbatim>\<open>check\<close> resolves with
  the result of that last attempt. The events it emits are, for the \<open>i\<close>-th failed
  attempt (\<open>i = 1, \<dots>, N\<close>), \<^verbatim>\<open>check\<close>, then \<^verbatim>\<open>error\<close> with the error of that attempt, then
  \<^verbatim>\<open>retry\<close> with that error and \<^verbatim>\<open>retryCount\<close> \<open>i\<close>, and at the end the \<^verbatim>\<open>check\<close> of the
  successful attempt (and its \<^verbatim>\<open>update\<close>, if any): \<^verbatim>\<open>retry\<close> is emitted exactly \<open>N\<close> times,
  with the counts \<open>1, \<dots>, N\<close>, and \<open>N\<close> delays of \<^verbatim>\<open>retryInterval\<close> are awaited.
\<close>

theorem retries_until_success:
  assumes "retryTimes (options s) = int N" and "0 < N" and "retryCount s = 0"
    and "\<forall>i<N. failure (fetch env (fetches s + i) (versionUrl (options s))) \<noteq> None"
    and "fetch env (fetches s + N) (versionUrl (options s)) = Resolves r" and "ok r"
  shows "\<exists>v s' evs. check env s = (Inr v, s') \<and>
           currentVersion v = versionTag s \<and>
           newVersion v = extract_marker (compareStrategy (options s)) (headers r) \<and>
           updateAvailable v =
             (versionTag s \<noteq> None \<and> newVersion v \<noteq> None \<and> newVersion v \<noteq> versionTag s) \<and>
           fetches s' = fetches s + N + 1 \<and>
           timeouts s' = timeouts s @ replicate N (retryInterval (options s)) \<and>
           emitted s' = emitted s @ evs \<and>
           map untimed evs =
             concat (map (\<lambda>i. failed_attempt
                            (the (failure (fetch env (fetches s + i) (versionUrl (options s)))))
                            (i + 1)) [0..<N])
             @ (EvCheck, Undefined) # (if updateAvailable v then [(EvUpdate, PInfo v)] else []) \<and>
           payloads_of EvRetry evs =
             map (\<lambda>i. PRetry (the (failure (fetch env (fetches s + i) (versionUrl (options s)))))
                              (i + 1)) [0..<N] \<and>
           payloads_of EvError evs =
             map (\<lambda>i. PError (the (failure (fetch env (fetches s + i) (versionUrl (options s))))))
                 [0..<N]"
proof -
  let ?err = "\<lambda>i. the (failure (fetch env (fetches s + i) (versionUrl (options s))))"
  have "int (retryCount s + N) \<le> retryTimes (options s)"
    using assms(1,3) by simp
  from retry_chain [OF assms(4,5,6) this] obtain v s' evs where
    c: "check env s = (Inr v, s')" and f: "fetches s' = Suc (fetches s + N)"
    and t: "timeouts s' = timeouts s @ replicate N (retryInterval (options s))"
    and e: "emitted s' = emitted s @ evs"
    and sig: "map untimed evs =
             concat (map (\<lambda>i. failed_attempt (?err i) (retryCount s + i + 1)) [0..<N])
             @ (EvCheck, Undefined) # (if updateAvailable v then [(EvUpdate, PInfo v)] else [])"
    and n: "newVersion v = extract_marker (compareStrategy (options s)) (headers r)"
    and cur: "currentVersion v = versionTag s"
    by (elim exE conjE) (rule that)
  have sig': "map untimed evs =
             concat (map (\<lambda>i. failed_attempt (?err i) (i + 1)) [0..<N])
             @ (EvCheck, Undefined) # (if updateAvailable v then [(EvUpdate, PInfo v)] else [])"
    using sig assms(3) by simp
  have u: "updateAvailable v =
             (versionTag s \<noteq> None \<and> newVersion v \<noteq> None \<and> newVersion v \<noteq> versionTag s)"
    by (rule check_resolves(3) [OF c])
  have pr: "payloads_of EvRetry evs = map (\<lambda>i. PRetry (?err i) (i + 1)) [0..<N]"
    unfolding payloads_of_untimed sig'
    by (simp add: failed_attempts_payloads del: upt_Suc)
  have pe: "payloads_of EvError evs = map (\<lambda>i. PError (?err i)) [0..<N]"
    unfolding payloads_of_untimed sig'
    by (simp add: failed_attempts_payloads del: upt_Suc)
  have f': "fetches s' = fetches s + N + 1"
    using f by simp
  show ?thesis
    using c cur n u f' t e sig' pr pe by blast
qed

theorem retries_until_success_witness:
  "retryTimes (options (fresh (DEFAULT_OPTIONS\<lparr>retryTimes := 2\<rparr>))) = int 2 \<and> (0::nat) < 2 \<and>
   retryCount (fresh (DEFAULT_OPTIONS\<lparr>retryTimes := 2\<rparr>)) = 0 \<and>
   (\<exists>v s'. check (scripted_host
                    [Rejects (JsTypeError ''Failed to fetch''),
                     Resolves \<lparr>ok = False, status = 503, statusText = ''Service Unavailable'',
                               headers = Map.empty\<rparr>]
                    (Resolves (ok_response [''etag'' \<mapsto> ''W/123''])))
               (fresh (DEFAULT_OPTIONS\<lparr>retryTimes := 2\<rparr>)) = (Inr v, s') \<and>
            newVersion v = Some ''W/123'' \<and> fetches s' = 3 \<and>
            payloads_of EvRetry (emitted s') =
              [PRetry (JsTypeError ''Failed to fetch'') 1,
               PRetry (JsError ''HTTP error: 503 Service Unavailable'') 2] \<and>
            payloads_of EvError (emitted s') =
              [PError (JsTypeError ''Failed to fetch''),
               PError (JsError ''HTTP error: 503 Service Unavailable'')])"
proof -
  let ?env = "scripted_host
                    [Rejects (JsTypeError ''Failed to fetch''),
                     Resolves \<lparr>ok = False, status = 503, statusText = ''Service Unavailable'',
                               headers = Map.empty\<rparr>]
                    (Resolves (ok_response [''etag'' \<mapsto> ''W/123'']))"
  let ?s = "fresh (DEFAULT_OPTIONS\<lparr>retryTimes := 2\<rparr>)"
  let ?url = "versionUrl (options ?s)"
  have d: "decimal 503 = ''503''"
    by (simp add: decimal.simps)
  have f0: "failure (fetch ?env 0 ?url) = Some (JsTypeError ''Failed to fetch'')"
    by (simp add: failure_def scripted_host_def)
  have f1: "failure (fetch ?env (Suc 0) ?url)
              = Some (JsError ''HTTP error: 503 Service Unavailable'')"
    by (simp add: failure_def scripted_host_def d)
  have z: "fetches ?s = 0" "emitted ?s = []"
    by (simp_all add: fresh_def)
  have 1: "retryTimes (options ?s) = int 2"
    by (simp add: fresh_def)
  have 2: "(0::nat) < 2"
    by simp
  have 3: "retryCount ?s = 0"
    by (simp add: fresh_def)
  have 4: "\<forall>i<2. failure (fetch ?env (fetches ?s + i) ?url) \<noteq> None"
  proof (intro allI impI)
    fix i :: nat
    assume "i < 2"
    then have "i = 0 \<or> i = Suc 0"
      by auto
    then show "failure (fetch ?env (fetches ?s + i) ?url) \<noteq> None"
      using f0 f1 z by auto
  qed
  have 5: "fetch ?env (fetches ?s + 2) ?url = Resolves (ok_response [''etag'' \<mapsto> ''W/123''])"
    by (simp add: scripted_host_def z)
  have 6: "ok (ok_response [''etag'' \<mapsto> ''W/123''])"
    by (simp add: ok_response_def)
  have l: "[0..<2] = [0, Suc 0]"
    by (simp add: upt_rec)
  have m: "extract_marker (compareStrategy (options ?s)) (headers (ok_response [''etag'' \<mapsto> ''W/123'']))
             = Some ''W/123''"
    by (simp add: fresh_def DEFAULT_OPTIONS_def extract_marker_def ok_response_def)
  from retries_until_success [OF 1 2 3 4 5 6] obtain v s' evs where
    "check ?env ?s = (Inr v, s')"
    "newVersion v = extract_marker (compareStrategy (options ?s))
                      (headers (ok_response [''etag'' \<mapsto> ''W/123'']))"
    "fetches s' = fetches ?s + 2 + 1"
    "emitted s' = emitted ?s @ evs"
    "payloads_of EvRetry evs =
             map (\<lambda>i. PRetry (the (failure (fetch ?env (fetches ?s + i) ?url))) (i + 1)) [0..<2]"
    "payloads_of EvError evs =
             map (\<lambda>i. PError (the (failure (fetch ?env (fetches ?s + i) ?url)))) [0..<2]"
    by (elim exE conjE) (rule that)
  then have "check ?env ?s = (Inr v, s') \<and> newVersion v = Some ''W/123'' \<and> fetches s' = 3 \<and>
            payloads_of EvRetry (emitted s') =
              [PRetry (JsTypeError ''Failed to fetch'') 1,
               PRetry (JsError ''HTTP error: 503 Service Unavailable'') 2] \<and>
            payloads_of EvError (emitted s') =
              [PError (JsTypeError ''Failed to fetch''),
               PError (JsError ''HTTP error: 503 Service Unavailable'')]"
    unfolding l m z using f0 f1 by simp
  then show ?thesis
    using 1 2 3 by blast
qed

text \<open>
  C3. With \<^verbatim>\<open>retryTimes\<close> 0, a check whose fetch fails (it rejects or throws, or the
  response is not \<^verbatim>\<open>ok\<close>) rejects with the error of that attempt itself, after exactly
  one call of \<^verbatim>\<open>fetch\<close>; the events emitted are one \<^verbatim>\<open>check\<close> and one \<^verbatim>\<open>error\<close> carrying
  that error, so no \<^verbatim>\<open>retry\<close>; no delay is awaited, and the retry counter is 0 afterwards.
\<close>

theorem no_retry_rejects_with_error:
  assumes "retryTimes (options s) = 0"
    and "failure (fetch env (fetches s) (versionUrl (options s))) = Some e"
  shows "\<exists>s'. check env s = (Inl e, s') \<and> fetches s' = Suc (fetches s) \<and>
           retryCount s' = 0 \<and> versionTag s' = versionTag s \<and> timeouts s' = timeouts s \<and>
           emitted s' = emitted s @
             [\<lparr>ev_type = EvCheck, ev_payload = Undefined, ev_timestamp = now env (ticks s)\<rparr>,
              \<lparr>ev_type = EvError, ev_payload = PError e,
               ev_timestamp = now env (Suc (ticks s))\<rparr>]"
proof -
  let ?y = "(emit env EvCheck Undefined s)\<lparr>fetches := Suc (fetches s)\<rparr>"
  have "check_try env s = (Inl e, ?y)"
    by (rule check_try_failure [OF assms(2)])
  moreover have "\<not> int (retryCount s) < retryTimes (options s)"
    using assms(1) by simp
  ultimately have "check env s = (Inl e, (emit env EvError (PError e) ?y)\<lparr>retryCount := 0\<rparr>)"
    by (rule check_exhausted)
  then show ?thesis
    by simp
qed

theorem no_retry_rejects_with_error_witness:
  "retryTimes (options (fresh (DEFAULT_OPTIONS\<lparr>retryTimes := 0\<rparr>))) = 0 \<and>
   (\<exists>s'. check (scripted_host [] (Resolves \<lparr>ok = False, status = 404, statusText = ''Not Found'',
                                            headers = Map.empty\<rparr>))
             (fresh (DEFAULT_OPTIONS\<lparr>retryTimes := 0\<rparr>))
           = (Inl (JsError ''HTTP error: 404 Not Found''), s') \<and>
         fetches s' = 1 \<and> retryCount s' = 0 \<and>
         map untimed (emitted s') =
           [(EvCheck, Undefined), (EvError, PError (JsError ''HTTP error: 404 Not Found''))])"
proof -
  let ?env = "scripted_host [] (Resolves \<lparr>ok = False, status = 404, statusText = ''Not Found'',
                                            headers = Map.empty\<rparr>)"
  let ?s = "fresh (DEFAULT_OPTIONS\<lparr>retryTimes := 0\<rparr>)"
  have d: "decimal 404 = ''404''"
    by (simp add: decimal.simps)
  have 1: "retryTimes (options ?s) = 0"
    by (simp add: fresh_def)
  have 2: "failure (fetch ?env (fetches ?s) (versionUrl (options ?s)))
             = Some (JsError ''HTTP error: 404 Not Found'')"
    by (simp add: failure_def scripted_host_def d)
  show ?thesis
    using no_retry_rejects_with_error [OF 1 2] 1
    by (auto simp add: fresh_def untimed_def)
qed

text \<open>
  C4. On an instance whose stored marker is \<^verbatim>\<open>null\<close>, a check that succeeds returns a
  result with \<^verbatim>\<open>updateAvailable\<close> false whatever marker was extracted, stores the
  extracted marker (\<^verbatim>\<open>null\<close> included), and emits no \<^verbatim>\<open>update\<close> event. The marker is the
  one extracted from the response of the last fetch of the check.
\<close>

theorem first_check_seeds_marker:
  assumes "versionTag s = None" and "check env s = (Inr v, s')"
  shows "\<not> updateAvailable v \<and> currentVersion v = None \<and> versionTag s' = newVersion v \<and>
         (\<exists>r. fetch env (fetches s' - 1) (versionUrl (options s)) = Resolves r \<and> ok r \<and>
              newVersion v = extract_marker (compareStrategy (options s)) (headers r)) \<and>
         (\<exists>evs. emitted s' = emitted s @ evs \<and> payloads_of EvUpdate evs = [])"
proof -
  have u: "\<not> updateAvailable v"
    using check_resolves(3) [OF assms(2)] assms(1) by simp
  moreover have "currentVersion v = None"
    using check_resolves(2) [OF assms(2)] assms(1) by simp
  moreover have "versionTag s' = newVersion v"
    using check_resolves(4) [OF assms(2)] assms(1) by simp
  moreover have "\<exists>evs. emitted s' = emitted s @ evs \<and> payloads_of EvUpdate evs = []"
    using check_resolves(5) [OF assms(2)] u by simp
  ultimately show ?thesis
    using check_resolves(1) [OF assms(2)] by simp
qed

theorem first_check_seeds_marker_witness:
  "versionTag (fresh DEFAULT_OPTIONS) = None \<and>
   (\<exists>v s'. check (scripted_host [] (Resolves (ok_response [''etag'' \<mapsto> ''W/123''])))
               (fresh DEFAULT_OPTIONS) = (Inr v, s') \<and>
            \<not> updateAvailable v \<and> newVersion v = Some ''W/123'' \<and>
            versionTag s' = Some ''W/123'')"
proof -
  let ?env = "scripted_host [] (Resolves (ok_response [''etag'' \<mapsto> ''W/123'']))"
  let ?s = "fresh DEFAULT_OPTIONS"
  have 1: "versionTag ?s = None"
    by (simp add: fresh_def)
  have "fetch ?env (fetches ?s) (versionUrl (options ?s))
          = Resolves (ok_response [''etag'' \<mapsto> ''W/123''])"
    by (simp add: scripted_host_def)
  moreover have "ok (ok_response [''etag'' \<mapsto> ''W/123''])"
    by (simp add: ok_response_def)
  ultimately obtain v s' where c: "check ?env ?s = (Inr v, s')"
    and n: "newVersion v = extract_marker (compareStrategy (options ?s))
                             (headers (ok_response [''etag'' \<mapsto> ''W/123'']))"
    using first_attempt_resolves by blast
  have "newVersion v = Some ''W/123''"
    using n by (simp add: fresh_def DEFAULT_OPTIONS_def extract_marker_def ok_response_def)
  then show ?thesis
    using first_check_seeds_marker [OF 1 c] 1 c by auto
qed

text \<open>
  C5. When the stored marker is the string \<open>a\<close> and a check succeeds with an extracted
  marker \<open>b\<close> that is not \<^verbatim>\<open>null\<close> and differs from \<open>a\<close>, the result has
  \<^verbatim>\<open>updateAvailable\<close> true, \<^verbatim>\<open>currentVersion\<close> \<open>a\<close> and \<^verbatim>\<open>newVersion\<close> \<open>b\<close>, the stored
  marker becomes \<open>b\<close>, and exactly one \<^verbatim>\<open>update\<close> event is emitted, whose payload is that
  result.
\<close>

theorem changed_marker_signals_update:
  assumes "versionTag s = Some a" and "check env s = (Inr v, s')"
    and "newVersion v = Some b" and "b \<noteq> a"
  shows "updateAvailable v \<and> currentVersion v = Some a \<and> newVersion v = Some b \<and>
         versionTag s' = Some b \<and>
         (\<exists>r. fetch env (fetches s' - 1) (versionUrl (options s)) = Resolves r \<and> ok r \<and>
              extract_marker (compareStrategy (options s)) (headers r) = Some b) \<and>
         (\<exists>evs. emitted s' = emitted s @ evs \<and> payloads_of EvUpdate evs = [PInfo v])"
proof -
  have u: "updateAvailable v"
    using check_resolves(3) [OF assms(2)] assms(1,3,4) by simp
  moreover have "currentVersion v = Some a"
    using check_resolves(2) [OF assms(2)] assms(1) by simp
  moreover have "versionTag s' = Some b"
    using check_resolves(4) [OF assms(2)] u assms(3) by simp
  moreover have "\<exists>evs. emitted s' = emitted s @ evs \<and> payloads_of EvUpdate evs = [PInfo v]"
    using check_resolves(5) [OF assms(2)] u by simp
  moreover have "\<exists>r. fetch env (fetches s' - 1) (versionUrl (options s)) = Resolves r \<and> ok r \<and>
              extract_marker (compareStrategy (options s)) (headers r) = Some b"
    using check_resolves(1) [OF assms(2)] assms(3) by auto
  ultimately show ?thesis
    using assms(3) by simp
qed

theorem changed_marker_signals_update_witness:
  "versionTag ((fresh DEFAULT_OPTIONS)\<lparr>versionTag := Some ''W/123''\<rparr>) = Some ''W/123'' \<and>
   ''W/456'' \<noteq> ''W/123'' \<and>
   (\<exists>v s'. check (scripted_host [] (Resolves (ok_response [''etag'' \<mapsto> ''W/456''])))
               ((fresh DEFAULT_OPTIONS)\<lparr>versionTag := Some ''W/123''\<rparr>) = (Inr v, s') \<and>
            newVersion v = Some ''W/456'' \<and> updateAvailable v \<and>
            currentVersion v = Some ''W/123'' \<and> versionTag s' = Some ''W/456'' \<and>
            payloads_of EvUpdate (emitted s') = [PInfo v])"
proof -
  let ?env = "scripted_host [] (Resolves (ok_response [''etag'' \<mapsto> ''W/456'']))"
  let ?s = "(fresh DEFAULT_OPTIONS)\<lparr>versionTag := Some ''W/123''\<rparr>"
  have 1: "versionTag ?s = Some ''W/123''"
    by simp
  have 4: "''W/456'' \<noteq> ''W/123''"
    by simp
  have "fetch ?env (fetches ?s) (versionUrl (options ?s))
          = Resolves (ok_response [''etag'' \<mapsto> ''W/456''])"
    by (simp add: scripted_host_def)
  moreover have "ok (ok_response [''etag'' \<mapsto> ''W/456''])"
    by (simp add: ok_response_def)
  ultimately obtain v s' where c: "check ?env ?s = (Inr v, s')"
    and n: "newVersion v = extract_marker (compareStrategy (options ?s))
                             (headers (ok_response [''etag'' \<mapsto> ''W/456'']))"
    using first_attempt_resolves by blast
  have 3: "newVersion v = Some ''W/456''"
    using n by (simp add: fresh_def DEFAULT_OPTIONS_def extract_marker_def ok_response_def)
  have e: "emitted ?s = []"
    by (simp add: fresh_def)
  show ?thesis
    using changed_marker_signals_update [OF 1 c 3 4] c 3 e by auto
qed

text \<open>
  C6, as stated: the marker is extracted as the specification words it, a fallback being
  taken only when the preferred header is absent. This fails for a header that is
  present with the empty string as value: \<^verbatim>\<open>||\<close> passes over it.
\<close>

theorem custom_empty_header_counterexample:
  "extract_marker ''custom'' [''x-version'' \<mapsto> '''', ''etag'' \<mapsto> ''W/123''] = Some ''W/123'' \<and>
   spec_marker ''custom'' [''x-version'' \<mapsto> '''', ''etag'' \<mapsto> ''W/123''] = Some '''' \<and>
   extract_marker ''custom'' [''x-version'' \<mapsto> '''', ''etag'' \<mapsto> ''W/123'']
     \<noteq> spec_marker ''custom'' [''x-version'' \<mapsto> '''', ''etag'' \<mapsto> ''W/123'']"
  by (simp add: extract_marker_def spec_marker_def)

text \<open>
  C6, amended. For a successful response the extracted marker is: with \<^verbatim>\<open>etag\<close> the
  \<^verbatim>\<open>ETag\<close> header or \<^verbatim>\<open>null\<close>; with \<^verbatim>\<open>last-modified\<close> the \<^verbatim>\<open>Last-Modified\<close> header or
  \<^verbatim>\<open>null\<close>; with \<^verbatim>\<open>custom\<close> the \<^verbatim>\<open>x-version\<close> header when it is present and not empty,
  and otherwise the \<^verbatim>\<open>ETag\<close> header or \<^verbatim>\<open>null\<close>; with any other strategy the \<^verbatim>\<open>ETag\<close>
  header when it is present and not empty, and otherwise the \<^verbatim>\<open>Last-Modified\<close> header or
  \<^verbatim>\<open>null\<close>. When neither \<^verbatim>\<open>x-version\<close> nor \<^verbatim>\<open>ETag\<close> is present with an empty value, this
  is the extraction of the specification.
\<close>

theorem marker_extraction:
  "extract_marker strategy hs =
     (if strategy = ''etag'' then hs ''etag''
      else if strategy = ''last-modified'' then hs ''last-modified''
      else if strategy = ''custom''
        then (if hs ''x-version'' = None \<or> hs ''x-version'' = Some [] then hs ''etag''
              else hs ''x-version'')
      else (if hs ''etag'' = None \<or> hs ''etag'' = Some [] then hs ''last-modified''
            else hs ''etag'')) \<and>
   (hs ''x-version'' \<noteq> Some [] \<and> hs ''etag'' \<noteq> Some [] \<longrightarrow>
      extract_marker strategy hs = spec_marker strategy hs)"
proof -
  have or: "js_or a b = (if a = None \<or> a = Some [] then b else a)" for a b
    by (cases a) simp_all
  show ?thesis
    by (auto simp add: extract_marker_def spec_marker_def or split: option.splits)
qed

theorem marker_extraction_witness:
  "[''x-version'' \<mapsto> ''2.0.0'', ''etag'' \<mapsto> ''W/123''] ''x-version'' \<noteq> Some [] \<and>
   [''x-version'' \<mapsto> ''2.0.0'', ''etag'' \<mapsto> ''W/123''] ''etag'' \<noteq> Some [] \<and>
   extract_marker ''custom'' [''x-version'' \<mapsto> ''2.0.0'', ''etag'' \<mapsto> ''W/123'']
     = spec_marker ''custom'' [''x-version'' \<mapsto> ''2.0.0'', ''etag'' \<mapsto> ''W/123''] \<and>
   spec_marker ''custom'' [''x-version'' \<mapsto> ''2.0.0'', ''etag'' \<mapsto> ''W/123'']
     = Some ''2.0.0''"
proof -
  let ?hs = "[''x-version'' \<mapsto> ''2.0.0'', ''etag'' \<mapsto> ''W/123'']"
  have a: "?hs ''x-version'' \<noteq> Some [] \<and> ?hs ''etag'' \<noteq> Some []"
    by simp
  with marker_extraction [of "''custom''" ?hs]
  have "extract_marker ''custom'' ?hs = spec_marker ''custom'' ?hs"
    by blast
  moreover have "spec_marker ''custom'' ?hs = Some ''2.0.0''"
    by (simp add: spec_marker_def)
  ultimately show ?thesis
    using a by blast
qed

text \<open>
  C7. Whatever the state, a call of \<^verbatim>\<open>check\<close> changes the stored marker only when it
  succeeds and either the stored marker was \<^verbatim>\<open>null\<close> (the seeding, which reports no
  update) or the extracted marker is not \<^verbatim>\<open>null\<close> and differs from the stored one (which
  reports an update); the new stored marker is then the extracted one. A check that
  fails, one that extracts \<^verbatim>\<open>null\<close> and one that extracts the stored marker leave it as it
  is, and so do \<^verbatim>\<open>stop\<close>, \<^verbatim>\<open>on\<close> and \<^verbatim>\<open>off\<close>.
\<close>

theorem marker_changes_only_by_seed_or_update:
  assumes "check env s = (r, s')"
  shows "(versionTag s' \<noteq> versionTag s \<longrightarrow>
            (\<exists>v. r = Inr v \<and> versionTag s' = newVersion v \<and>
               ((versionTag s = None \<and> \<not> updateAvailable v) \<or>
                (versionTag s \<noteq> None \<and> newVersion v \<noteq> None \<and>
                 newVersion v \<noteq> versionTag s \<and> updateAvailable v)))) \<and>
         (\<forall>e. r = Inl e \<longrightarrow> versionTag s' = versionTag s) \<and>
         (\<forall>v. r = Inr v \<longrightarrow> newVersion v = None \<or> newVersion v = versionTag s \<longrightarrow>
                versionTag s' = versionTag s) \<and>
         (\<forall>v. r = Inr v \<longrightarrow>
            (\<exists>r0. fetch env (fetches s' - 1) (versionUrl (options s)) = Resolves r0 \<and> ok r0 \<and>
                  newVersion v = extract_marker (compareStrategy (options s)) (headers r0))) \<and>
         versionTag (stop env s) = versionTag s \<and>
         versionTag (on ev cb s) = versionTag s \<and>
         versionTag (off ev cb s) = versionTag s"
proof -
  have 1: "\<exists>v. r = Inr v \<and> versionTag s' = newVersion v \<and>
               ((versionTag s = None \<and> \<not> updateAvailable v) \<or>
                (versionTag s \<noteq> None \<and> newVersion v \<noteq> None \<and>
                 newVersion v \<noteq> versionTag s \<and> updateAvailable v))"
    if d: "versionTag s' \<noteq> versionTag s"
  proof (cases r)
    case (Inl e)
    then show ?thesis
      using check_rejects(1) [of env s e s'] assms d by simp
  next
    case (Inr v)
    have c: "check env s = (Inr v, s')"
      using assms Inr by simp
    show ?thesis
    proof (cases "versionTag s = None")
      case True
      then show ?thesis
        using check_resolves(3,4) [OF c] Inr by simp
    next
      case False
      then have "updateAvailable v"
        using check_resolves(4) [OF c] d by (simp split: if_splits)
      then show ?thesis
        using check_resolves(3,4) [OF c] Inr False by simp
    qed
  qed
  have 2: "versionTag s' = versionTag s" if "r = Inl e" for e
    using check_rejects(1) [of env s e s'] assms that by simp
  have 3: "versionTag s' = versionTag s"
    if "r = Inr v" and n: "newVersion v = None \<or> newVersion v = versionTag s" for v
  proof -
    have c: "check env s = (Inr v, s')"
      using assms that by simp
    have "\<not> updateAvailable v"
      using check_resolves(3) [OF c] n by auto
    then show ?thesis
      using check_resolves(4) [OF c] n by auto
  qed
  have 4: "\<exists>r0. fetch env (fetches s' - 1) (versionUrl (options s)) = Resolves r0 \<and> ok r0 \<and>
                  newVersion v = extract_marker (compareStrategy (options s)) (headers r0)"
    if "r = Inr v" for v
    using check_resolves(1) [of env s v s'] assms that by simp
  show ?thesis
    using 1 2 3 4 versionTag_stop versionTag_on versionTag_off by blast
qed

theorem marker_changes_only_by_seed_or_update_witness:
  "\<exists>v s'. check (scripted_host [] (Resolves (ok_response [''etag'' \<mapsto> ''W/456''])))
             ((fresh DEFAULT_OPTIONS)\<lparr>versionTag := Some ''W/123''\<rparr>) = (Inr v, s') \<and>
          versionTag s' \<noteq> versionTag ((fresh DEFAULT_OPTIONS)\<lparr>versionTag := Some ''W/123''\<rparr>) \<and>
          versionTag s' = newVersion v \<and> newVersion v = Some ''W/456'' \<and> updateAvailable v"
proof -
  let ?env = "scripted_host [] (Resolves (ok_response [''etag'' \<mapsto> ''W/456'']))"
  let ?s = "(fresh DEFAULT_OPTIONS)\<lparr>versionTag := Some ''W/123''\<rparr>"
  have "fetch ?env (fetches ?s) (versionUrl (options ?s))
          = Resolves (ok_response [''etag'' \<mapsto> ''W/456''])"
    by (simp add: scripted_host_def)
  moreover have "ok (ok_response [''etag'' \<mapsto> ''W/456''])"
    by (simp add: ok_response_def)
  ultimately obtain v s' where c: "check ?env ?s = (Inr v, s')"
    and n: "newVersion v = extract_marker (compareStrategy (options ?s))
                             (headers (ok_response [''etag'' \<mapsto> ''W/456'']))"
    using first_attempt_resolves by blast
  have n': "newVersion v = Some ''W/456''"
    using n by (simp add: fresh_def DEFAULT_OPTIONS_def extract_marker_def ok_response_def)
  have u: "updateAvailable v"
    using check_resolves(3) [OF c] n' by simp
  have d: "versionTag s' \<noteq> versionTag ?s"
    using check_resolves(4) [OF c] u n' by simp
  have "\<exists>w. Inr v = Inr w \<and> versionTag s' = newVersion w"
    using marker_changes_only_by_seed_or_update [OF c] d by blast
  then have "versionTag s' = newVersion v"
    by simp
  then show ?thesis
    using c d n' u by blast
qed

text \<open>
  C8. An emission calls every callback registered for the event, once and in order,
  whether or not some of them throw; what a callback throws is written to the console
  and goes no further, since \<^verbatim>\<open>emit\<close> only returns a state. What the callbacks do changes
  nothing but the record of their invocations and the console: with any other
  behaviour of the callbacks, \<^verbatim>\<open>emit\<close> and \<^verbatim>\<open>check\<close> leave the same checker and
  \<^verbatim>\<open>check\<close> settles to the same value. When \<^verbatim>\<open>check\<close> rejects, it rejects with the error of
  its last fetch attempt (the value the fetch rejected with, or the error made for the
  response status), never with what a callback threw.
\<close>

theorem listener_errors_are_contained:
  "invoked (emit env ev p s) =
     invoked s @ map (\<lambda>cb. (cb, \<lparr>ev_type = ev, ev_payload = p, ev_timestamp = now env (ticks s)\<rparr>))
                   (listeners s ev) \<and>
   console (emit env ev p s) =
     console s @ List.map_filter
       (\<lambda>cb. callback env cb \<lparr>ev_type = ev, ev_payload = p, ev_timestamp = now env (ticks s)\<rparr>)
       (listeners s ev) \<and>
   same_checker (emit env ev p s) (emit (env\<lparr>callback := c\<rparr>) ev p s) \<and>
   fst (check (env\<lparr>callback := c\<rparr>) s) = fst (check env s) \<and>
   same_checker (snd (check env s)) (snd (check (env\<lparr>callback := c\<rparr>) s)) \<and>
   (\<forall>e s'. check env s = (Inl e, s') \<longrightarrow>
      failure (fetch env (fetches s' - 1) (versionUrl (options s))) = Some e)"
proof -
  have f: "fetch (env\<lparr>callback := c\<rparr>) = fetch env" and n: "now (env\<lparr>callback := c\<rparr>) = now env"
    by simp_all
  have 1: "same_checker (emit env ev p s) (emit (env\<lparr>callback := c\<rparr>) ev p s)"
    by (rule emit_same [OF same_checker_refl n])
  have 2: "fst (check (env\<lparr>callback := c\<rparr>) s) = fst (check env s)"
    "same_checker (snd (check env s)) (snd (check (env\<lparr>callback := c\<rparr>) s))"
    using check_same [OF same_checker_refl f n, of s] by blast+
  have 3: "failure (fetch env (fetches s' - 1) (versionUrl (options s))) = Some e"
    if "check env s = (Inl e, s')" for e s'
    by (rule check_rejects(2) [OF that])
  show ?thesis
    using emit_traces [of env ev p s] 1 2 3 by blast
qed

theorem listener_errors_are_contained_witness:
  "\<exists>s'. check throwing_host listening = (Inl (JsError ''Network error''), s') \<and>
         failure (fetch throwing_host (fetches s' - 1) (versionUrl (options listening)))
           = Some (JsError ''Network error'') \<and>
         map fst (invoked s') = [0, 1] \<and>
         console s' = [JsError ''Listener error''] \<and>
         fst (check (throwing_host\<lparr>callback := (\<lambda>cb e. None)\<rparr>) listening)
           = Inl (JsError ''Network error'')"
proof -
  let ?e = "JsError ''Network error''"
  let ?y = "(emit throwing_host EvCheck Undefined listening)\<lparr>fetches := Suc (fetches listening)\<rparr>"
  let ?s' = "(emit throwing_host EvError (PError ?e) ?y)\<lparr>retryCount := 0\<rparr>"
  have z: "retryTimes (options listening) = 0" "retryCount listening = 0"
    "invoked listening = []" "console listening = []"
    "eventListeners listening EvError = Some [0, 1]" "eventListeners listening EvCheck = None"
    by (simp_all add: listening_def on_def fresh_def)
  have fl: "failure (fetch throwing_host (fetches listening) (versionUrl (options listening)))
              = Some ?e"
    by (simp add: throwing_host_def scripted_host_def failure_def)
  have t: "check_try throwing_host listening = (Inl ?e, ?y)"
    by (rule check_try_failure [OF fl])
  have "\<not> int (retryCount listening) < retryTimes (options listening)"
    by (simp add: z)
  with t have c: "check throwing_host listening = (Inl ?e, ?s')"
    by (rule check_exhausted)
  have ly: "listeners ?y EvError = [0, 1]" "listeners listening EvCheck = []"
    by (simp_all add: listeners_def z)
  have iy: "invoked ?y = []" "console ?y = []"
    using listener_errors_are_contained [of throwing_host EvCheck Undefined listening]
    by (simp_all add: ly z map_filter_simps)
  have cb: "callback throwing_host 0 ed = Some (JsError ''Listener error'')"
    "callback throwing_host (Suc 0) ed = None" for ed
    by (simp_all add: throwing_host_def scripted_host_def)
  from listener_errors_are_contained [of throwing_host EvError "PError ?e" ?y]
  have a1: "map fst (invoked ?s') = [0, 1]" and a2: "console ?s' = [JsError ''Listener error'']"
    by (simp_all add: ly iy cb map_filter_simps)
  have a0: "failure (fetch throwing_host (fetches ?s' - 1) (versionUrl (options listening)))
           = Some ?e"
    using listener_errors_are_contained [of throwing_host EvCheck Undefined listening] c
    by blast
  have a3: "fst (check (throwing_host\<lparr>callback := (\<lambda>cb e. None)\<rparr>) listening) = Inl ?e"
    using listener_errors_are_contained
            [of throwing_host EvCheck Undefined listening "\<lambda>cb e. None"] c
    by simp
  show ?thesis
    by (rule exI [of _ ?s']) (intro conjI c a0 a1 a2 a3)
qed

text \<open>
  C9. \<^verbatim>\<open>start\<close> on an instance whose timer is armed changes nothing at all: no event, no
  fetch, the same timer. \<^verbatim>\<open>stop\<close> on an instance whose timer is not armed changes nothing
  at all either, and never fails. After \<^verbatim>\<open>start\<close> the timer is armed and a second \<^verbatim>\<open>start\<close>
  is without effect; after \<^verbatim>\<open>stop\<close>, and so after every sequence of calls that ends in
  \<^verbatim>\<open>stop\<close>, \<^verbatim>\<open>getTimerState\<close> is false and a second \<^verbatim>\<open>stop\<close> is without effect. In every
  state that a constructed instance reaches with a timer armed, exactly one interval
  timer is armed on the host, also after another \<^verbatim>\<open>start\<close>.
\<close>

theorem start_and_stop_are_idempotent:
  "(getTimerState s \<longrightarrow> start env s = s) \<and>
   (\<not> getTimerState s \<longrightarrow> stop env s = s) \<and>
   getTimerState (start env s) \<and>
   start env (start env s) = start env s \<and>
   \<not> getTimerState (stop env s) \<and>
   stop env (stop env s) = stop env s \<and>
   \<not> getTimerState (run env (cs @ [Stop]) s) \<and>
   (getTimerState (run env cs (new_VersionChecker env u)) \<longrightarrow>
      length (intervals (run env cs (new_VersionChecker env u))) = 1 \<and>
      length (intervals (start env (run env cs (new_VersionChecker env u)))) = 1)"
proof -
  let ?r = "run env cs (new_VersionChecker env u)"
  have 1: "start env s = s" if "getTimerState s"
    using that by (simp add: getTimerState_def start_armed)
  have 2: "stop env s = s" if "\<not> getTimerState s"
    using that by (simp add: getTimerState_def stop_unarmed)
  have 3: "getTimerState (start env s)"
    by (simp add: getTimerState_def timer_start)
  have 4: "start env (start env s) = start env s"
    by (rule start_armed [OF timer_start])
  have 5: "\<not> getTimerState (stop env s)"
    by (simp add: getTimerState_def timer_stop)
  have 6: "stop env (stop env s) = stop env s"
    by (rule stop_unarmed [OF timer_stop])
  have 7: "\<not> getTimerState (run env (cs @ [Stop]) s)"
    by (simp add: run_append getTimerState_def timer_stop)
  have 8: "length (intervals ?r) = 1 \<and> length (intervals (start env ?r)) = 1"
    if g: "getTimerState ?r"
  proof -
    have "timer_owned ?r"
      by (rule timer_owned_run [OF timer_owned_new])
    then have "length (intervals ?r) = 1"
      using g by (auto simp add: timer_owned_def getTimerState_def)
    moreover have "start env ?r = ?r"
      using g by (simp add: getTimerState_def start_armed)
    ultimately show ?thesis
      by simp
  qed
  show ?thesis
    using 1 2 3 4 5 6 7 8 by blast
qed


theorem start_and_stop_are_idempotent_witness:
  "getTimerState (start serving_host (fresh DEFAULT_OPTIONS)) \<and>
   start serving_host (start serving_host (fresh DEFAULT_OPTIONS))
     = start serving_host (fresh DEFAULT_OPTIONS) \<and>
   \<not> getTimerState (fresh DEFAULT_OPTIONS) \<and>
   stop serving_host (fresh DEFAULT_OPTIONS) = fresh DEFAULT_OPTIONS \<and>
   getTimerState (run serving_host [Start, Start] (new_VersionChecker serving_host no_options)) \<and>
   length (intervals (run serving_host [Start, Start]
                        (new_VersionChecker serving_host no_options))) = 1"
proof -
  let ?s = "fresh DEFAULT_OPTIONS"
  let ?r = "run serving_host [Start, Start] (new_VersionChecker serving_host no_options)"
  have g1: "getTimerState (start serving_host ?s)"
    by (simp add: getTimerState_def timer_start)
  have a1: "start serving_host (start serving_host ?s) = start serving_host ?s"
    using start_and_stop_are_idempotent [of "start serving_host ?s" serving_host "[]" no_options]
      g1 by blast
  have g2: "\<not> getTimerState ?s"
    by (simp add: getTimerState_def fresh_def)
  have a2: "stop serving_host ?s = ?s"
    using start_and_stop_are_idempotent [of ?s serving_host "[]" no_options] g2 by blast
  have g3: "getTimerState ?r"
    by (simp add: getTimerState_def timer_start)
  have a3: "length (intervals ?r) = 1"
    using start_and_stop_are_idempotent [of ?s serving_host "[Start, Start]" no_options] g3
    by blast
  show ?thesis
    by (intro conjI g1 a1 g2 a2 g3 a3)
qed

text \<open>
  C10. Starting from a stored marker \<^verbatim>\<open>null\<close>, after any number of checks in a row of
  which every successful one extracted \<^verbatim>\<open>null\<close>, the stored marker is still \<^verbatim>\<open>null\<close> and
  each of those checks reported \<^verbatim>\<open>updateAvailable\<close> false; so the next successful check,
  whatever marker it extracts, takes the seeding branch: it reports \<^verbatim>\<open>updateAvailable\<close>
  false, stores the marker and emits no \<^verbatim>\<open>update\<close> event.
\<close>

theorem null_markers_keep_seeding:
  assumes "versionTag s = None" and "checks env n s = (rs, s1)"
    and "\<forall>v. Inr v \<in> set rs \<longrightarrow> newVersion v = None"
  shows "versionTag s1 = None \<and>
         (\<forall>v. Inr v \<in> set rs \<longrightarrow> \<not> updateAvailable v) \<and>
         (\<forall>v s2. check env s1 = (Inr v, s2) \<longrightarrow>
            \<not> updateAvailable v \<and> currentVersion v = None \<and> versionTag s2 = newVersion v \<and>
            (\<exists>evs. emitted s2 = emitted s1 @ evs \<and> payloads_of EvUpdate evs = []))"
proof -
  have a: "versionTag s1 = None" and b: "\<forall>v. Inr v \<in> set rs \<longrightarrow> \<not> updateAvailable v"
    using checks_null_markers [of s env n] assms by (simp_all del: checks.simps)
  have "\<not> updateAvailable v \<and> currentVersion v = None \<and> versionTag s2 = newVersion v \<and>
            (\<exists>evs. emitted s2 = emitted s1 @ evs \<and> payloads_of EvUpdate evs = [])"
    if c: "check env s1 = (Inr v, s2)" for v s2
  proof -
    have u: "\<not> updateAvailable v"
      using check_resolves(3) [OF c] a by simp
    then show ?thesis
      using check_resolves(2,4,5) [OF c] a by simp
  qed
  then show ?thesis
    using a b by blast
qed

theorem null_markers_keep_seeding_witness:
  "versionTag (fresh DEFAULT_OPTIONS) = None \<and>
   (\<exists>v1 v2. fst (checks unmarked_host 2 (fresh DEFAULT_OPTIONS)) = [Inr v1, Inr v2] \<and>
            newVersion v1 = None \<and> newVersion v2 = None) \<and>
   (\<exists>v s2. check unmarked_host (snd (checks unmarked_host 2 (fresh DEFAULT_OPTIONS))) = (Inr v, s2) \<and>
           newVersion v = Some ''W/123'' \<and> \<not> updateAvailable v \<and>
           versionTag s2 = Some ''W/123'')"
proof -
  let ?s = "fresh DEFAULT_OPTIONS"
  have z: "fetches ?s = 0" "retryCount ?s = 0" "versionTag ?s = None"
    "retryTimes (options ?s) = 3" "versionUrl (options ?s) = ''/''"
    "compareStrategy (options ?s) = ''etag''"
    by (simp_all add: fresh_def DEFAULT_OPTIONS_def)
  have h: "fetch unmarked_host 0 u = Resolves (ok_response Map.empty)"
    "fetch unmarked_host (Suc 0) u = Resolves (ok_response Map.empty)"
    "fetch unmarked_host (Suc (Suc 0)) u = Resolves (ok_response [''etag'' \<mapsto> ''W/123''])" for u
    by (simp_all add: unmarked_host_def scripted_host_def)
  have k: "ok (ok_response hs)" "headers (ok_response hs) = hs" for hs
    by (simp_all add: ok_response_def)
  have m: "extract_marker ''etag'' Map.empty = None"
    "extract_marker ''etag'' [''etag'' \<mapsto> ''W/123''] = Some ''W/123''"
    by (simp_all add: extract_marker_def)
  have p1: "fetch unmarked_host (fetches ?s) (versionUrl (options ?s))
              = Resolves (ok_response Map.empty)"
    and q1: "int (retryCount ?s) \<le> retryTimes (options ?s)"
    by (simp_all add: z h)
  from resolves_step [OF p1 k(1) q1]
  obtain v1 s1 where c1: "check unmarked_host ?s = (Inr v1, s1)"
    and n1': "newVersion v1 = extract_marker (compareStrategy (options ?s))
                                (headers (ok_response Map.empty))"
    and s1: "fetches s1 = Suc (fetches ?s)" "retryCount s1 = retryCount ?s"
      "options s1 = options ?s"
    by (elim exE conjE) (rule that)
  have n1: "newVersion v1 = None"
    using n1' by (simp add: z k m)
  have p2: "fetch unmarked_host (fetches s1) (versionUrl (options s1))
              = Resolves (ok_response Map.empty)"
    and q2: "int (retryCount s1) \<le> retryTimes (options s1)"
    by (simp_all add: s1 z h)
  from resolves_step [OF p2 k(1) q2]
  obtain v2 s2 where c2: "check unmarked_host s1 = (Inr v2, s2)"
    and n2': "newVersion v2 = extract_marker (compareStrategy (options s1))
                                (headers (ok_response Map.empty))"
    and s2: "fetches s2 = Suc (fetches s1)" "retryCount s2 = retryCount s1"
      "options s2 = options s1"
    by (elim exE conjE) (rule that)
  have n2: "newVersion v2 = None"
    using n2' by (simp add: s1 z k m)
  have p3: "fetch unmarked_host (fetches s2) (versionUrl (options s2))
              = Resolves (ok_response [''etag'' \<mapsto> ''W/123''])"
    and q3: "int (retryCount s2) \<le> retryTimes (options s2)"
    by (simp_all add: s2 s1 z h)
  from resolves_step [OF p3 k(1) q3]
  obtain v3 s3 where c3: "check unmarked_host s2 = (Inr v3, s3)"
    and n3': "newVersion v3 = extract_marker (compareStrategy (options s2))
                                (headers (ok_response [''etag'' \<mapsto> ''W/123'']))"
    by (elim exE conjE) (rule that)
  have n3: "newVersion v3 = Some ''W/123''"
    using n3' by (simp add: s2 s1 z k m)
  have two: "(2::nat) = Suc (Suc 0)"
    by simp
  have cs: "checks unmarked_host 2 ?s = ([Inr v1, Inr v2], s2)"
    unfolding two checks_Suc c1 c2 fst_conv snd_conv by simp
  have null: "\<forall>v. Inr v \<in> set [Inr v1, Inr v2] \<longrightarrow> newVersion v = None"
    using n1 n2 by auto
  from null_markers_keep_seeding [OF z(3) cs null]
  have "\<not> updateAvailable v3 \<and> versionTag s3 = newVersion v3"
    using c3 by blast
  then have ex: "\<exists>v s'. check unmarked_host s2 = (Inr v, s') \<and> newVersion v = Some ''W/123'' \<and>
       \<not> updateAvailable v \<and> versionTag s' = Some ''W/123''"
    using c3 n3 by (intro exI [of _ v3] exI [of _ s3]) simp
  have "\<exists>w1 w2. [Inr v1, Inr v2] = [Inr w1, Inr w2] \<and> newVersion w1 = None \<and>
          newVersion w2 = None"
    using n1 n2 by blast
  then show ?thesis
    unfolding cs fst_conv snd_conv using z(3) ex by blast
qed

end
